theory Spec2Isabelle
  imports Complex_Main "HOL-Library.AList" "HOL-Library.Sublist" "HOL-Library.Log_Nat"
begin

section \<open>Data model of the fallback validator (src/utils/data\_validator.py)\<close>

text \<open>
  The validator works on pandas tables and on plain dictionaries. The embedding keeps
  the shapes the code relies on:
  \<^item> a float is \<open>fval\<close>: not-a-number (pandas' null), the two infinities, or a finite
    value, written as the rational it is. The result of a division is not computed
    exactly: it is the quotient rounded by \<open>round_double\<close>, the rounding of the
    platform, which the model takes as a parameter (so a tiny quotient may round to 0
    and a huge one to an infinity);
  \<^item> a table cell is an integer, a float or a string; \<open>Num NaN\<close> is the null cell
    (pandas reads \<open>None\<close> and \<open>NaN\<close> alike in \<open>isnull\<close>, \<open>fillna\<close> and \<open>groupby\<close>);
  \<^item> a table is the list of its named columns, in column order, rows identified by
    position (the default index). A non-empty column of integer cells only has dtype
    int64; any other column without a string is read as float64; a column with a
    string is an object column;
  \<^item> a dictionary is an association list read with \<open>map_of\<close> and written with
    \<open>AList.update\<close>;
  \<^item> an exception is a value of \<open>py_error\<close>; a method that mutates the cache returns
    the validator next to its result;
  \<^item> the clock, the external statistics provider and the behaviour of the platform
    are the record \<open>world\<close>: one clock reading per call, the provider's answer for each
    player identifier, the rounding of a quotient, and whether writing a float that is
    not a whole number into an int64 column raises \<open>TypeError\<close> (pandas 3) or
    converts the column to float64 (earlier versions, with a warning).
  Python names starting with an underscore lose it, since an Isabelle name cannot
  start with one.
\<close>

datatype fval = NaN | NegInf | Fin rat | PosInf

datatype cell = IntC int | Num fval | Str string

datatype py_error = TypeError | KeyError | ValueError | ProviderError

text \<open>A numeric series with its dtype.\<close>

datatype series = Ints "int list" | Floats "fval list"

type_synonym table = "(string \<times> cell list) list"

text \<open>Cache entries are the two dictionaries the code stores:
  \<open>{'previous_avg': a, 'timestamp': t}\<close> and \<open>{'value': a, 'timestamp': t}\<close>.\<close>

datatype cache_entry = PreviousAvg fval int | SeasonAvg fval int

fun timestamp :: "cache_entry \<Rightarrow> int" where
  "timestamp (PreviousAvg a t) = t"
| "timestamp (SeasonAvg a t) = t"

record validator =
  cache :: "(string \<times> cache_entry) list"
  cache_duration :: int

record world =
  now :: int
  statcast_batter :: "string \<Rightarrow> py_error + table option"
  round_double :: "rat \<Rightarrow> fval"
  setitem_raises :: bool

text \<open>Times are microseconds; \<open>__init__\<close> turns hours into a duration.\<close>

definition init :: "int \<Rightarrow> validator" where
  "init cache_duration_hours =
     \<lparr>cache = [], cache_duration = cache_duration_hours * 3600000000\<rparr>"

definition league_average :: fval where
  "league_average = Fin (244 / 1000)"

subsection \<open>Float comparisons\<close>

text \<open>IEEE comparisons as Python makes them: every comparison with NaN is false.\<close>

fun f_less :: "fval \<Rightarrow> fval \<Rightarrow> bool" where
  "f_less NaN y = False"
| "f_less x NaN = False"
| "f_less NegInf y = (y \<noteq> NegInf)"
| "f_less (Fin a) (Fin b) = (a < b)"
| "f_less (Fin a) PosInf = True"
| "f_less (Fin a) NegInf = False"
| "f_less PosInf y = False"

definition f_eq :: "fval \<Rightarrow> fval \<Rightarrow> bool" where
  "f_eq x y = (x = y \<and> x \<noteq> NaN)"

definition f_le :: "fval \<Rightarrow> fval \<Rightarrow> bool" where
  "f_le x y = (f_less x y \<or> f_eq x y)"

definition isnull :: "fval \<Rightarrow> bool" where
  "isnull x = (x = NaN)"

text \<open>The mask of lines 73-76, 106, 118 and 129:
  \<open>s.isnull() | (s == 0) | (s < 0) | (s > 1.0)\<close>, for one value.\<close>

definition invalid :: "fval \<Rightarrow> bool" where
  "invalid x = (isnull x \<or> f_eq x (Fin 0) \<or> f_less x (Fin 0) \<or> f_less (Fin 1) x)"

text \<open>The numbers of a series; an integer compares as the number it is.\<close>

fun values_of :: "series \<Rightarrow> fval list" where
  "values_of (Ints ks) = map (\<lambda>k. Fin (of_int k)) ks"
| "values_of (Floats xs) = xs"

definition invalid_mask :: "series \<Rightarrow> bool list" where
  "invalid_mask s = map invalid (values_of s)"

text \<open>The masked positions of a list of floats take the value \<open>a\<close>.\<close>

definition fill_invalid :: "fval \<Rightarrow> fval list \<Rightarrow> fval list" where
  "fill_invalid a xs = map (\<lambda>x. if invalid x then a else x) xs"

text \<open>\<open>series.loc[invalid_mask] = a\<close>. A float64 series takes any float. An int64
  series takes a float that is a whole number and stays int64; it is converted to
  float64 by a NaN, and by any other float when the platform does not raise;
  otherwise the write raises \<open>TypeError\<close> and the series is left as it was. The value
  is checked against the dtype before anything is written; in the cascade every write
  is reached with a mask that has a true entry.\<close>

definition set_invalid :: "world \<Rightarrow> fval \<Rightarrow> series \<Rightarrow> py_error + series" where
  "set_invalid w a s =
     (case s of
        Floats xs \<Rightarrow> Inr (Floats (fill_invalid a xs))
      | Ints ks \<Rightarrow>
          (case a of
             Fin q \<Rightarrow>
               if of_int \<lfloor>q\<rfloor> = q
               then Inr (Ints (map (\<lambda>k. if invalid (Fin (of_int k)) then \<lfloor>q\<rfloor> else k) ks))
               else if setitem_raises w then Inl TypeError
               else Inr (Floats (fill_invalid a (values_of (Ints ks))))
           | NaN \<Rightarrow> Inr (Floats (fill_invalid a (values_of (Ints ks))))
           | _ \<Rightarrow>
               if setitem_raises w then Inl TypeError
               else Inr (Floats (fill_invalid a (values_of (Ints ks))))))"

text \<open>The dtype of a column. A comparison \<open>s < 0\<close> on a column holding a string raises
  \<open>TypeError\<close>.\<close>

fun ints_of :: "cell list \<Rightarrow> int list option" where
  "ints_of [] = Some []"
| "ints_of (IntC k # cs) = (case ints_of cs of None \<Rightarrow> None | Some ks \<Rightarrow> Some (k # ks))"
| "ints_of (c # cs) = None"

fun floats_of :: "cell list \<Rightarrow> fval list option" where
  "floats_of [] = Some []"
| "floats_of (Str t # cs) = None"
| "floats_of (IntC k # cs) =
     (case floats_of cs of None \<Rightarrow> None | Some xs \<Rightarrow> Some (Fin (of_int k) # xs))"
| "floats_of (Num x # cs) = (case floats_of cs of None \<Rightarrow> None | Some xs \<Rightarrow> Some (x # xs))"

definition to_series :: "cell list \<Rightarrow> py_error + series" where
  "to_series cs =
     (case floats_of cs of
        None \<Rightarrow> Inl TypeError
      | Some xs \<Rightarrow>
          (case ints_of cs of
             Some ks \<Rightarrow> if cs = [] then Inr (Floats []) else Inr (Ints ks)
           | None \<Rightarrow> Inr (Floats xs)))"

fun cells_of :: "series \<Rightarrow> cell list" where
  "cells_of (Ints ks) = map IntC ks"
| "cells_of (Floats xs) = map Num xs"

text \<open>The number a cell holds, if it holds one.\<close>

fun number_of :: "cell \<Rightarrow> fval option" where
  "number_of (IntC k) = Some (Fin (of_int k))"
| "number_of (Num x) = Some x"
| "number_of (Str t) = None"

text \<open>The operands of a division: an integer is converted to a float.\<close>

fun to_float :: "world \<Rightarrow> cell \<Rightarrow> py_error + fval" where
  "to_float w (IntC k) = Inr (round_double w (of_int k))"
| "to_float w (Num x) = Inr x"
| "to_float w (Str t) = Inl TypeError"

fun numeric :: "world \<Rightarrow> cell list \<Rightarrow> py_error + fval list" where
  "numeric w [] = Inr []"
| "numeric w (c # cs) =
     (case to_float w c of
        Inl e \<Rightarrow> Inl e
      | Inr x \<Rightarrow> (case numeric w cs of Inl e \<Rightarrow> Inl e | Inr xs \<Rightarrow> Inr (x # xs)))"

subsection \<open>Tables\<close>

definition nrows :: "table \<Rightarrow> nat" where
  "nrows d = (case d of [] \<Rightarrow> 0 | (n, col) # _ \<Rightarrow> length col)"

text \<open>\<open>DataFrame.empty\<close>: no column or no row.\<close>

definition df_empty :: "table \<Rightarrow> bool" where
  "df_empty d = (d = [] \<or> nrows d = 0)"

text \<open>\<open>str.lower()\<close> on the ASCII letters.\<close>

definition char_lower :: "char \<Rightarrow> char" where
  "char_lower c =
     (case map_of (zip ''ABCDEFGHIJKLMNOPQRSTUVWXYZ'' ''abcdefghijklmnopqrstuvwxyz'') c of
        Some l \<Rightarrow> l
      | None \<Rightarrow> c)"

definition str_lower :: "string \<Rightarrow> string" where
  "str_lower s = map char_lower s"

text \<open>\<open>sub in s\<close> on strings.\<close>

fun str_contains :: "string \<Rightarrow> string \<Rightarrow> bool" where
  "str_contains sub [] = (sub = [])"
| "str_contains sub (c # cs) = (prefix sub (c # cs) \<or> str_contains sub cs)"

text \<open>Line 45: \<open>'avg' in col.lower() or 'average' in col.lower()\<close>.\<close>

definition is_avg_column :: "string \<Rightarrow> bool" where
  "is_avg_column col =
     (str_contains ''avg'' (str_lower col) \<or> str_contains ''average'' (str_lower col))"

subsection \<open>The cache\<close>

definition is_cache_valid :: "validator \<Rightarrow> world \<Rightarrow> int \<Rightarrow> bool" where
  "is_cache_valid v w ts = (now w - ts < cache_duration v)"

text \<open>Truth value of an \<open>Optional[str]\<close>: \<open>None\<close> and the empty string are false.\<close>

fun truthy_id :: "string option \<Rightarrow> bool" where
  "truthy_id None = False"
| "truthy_id (Some p) = (p \<noteq> [])"

definition cache_player_average :: "validator \<Rightarrow> world \<Rightarrow> string \<Rightarrow> fval option \<Rightarrow> validator" where
  "cache_player_average v w player_id batting_avg =
     (case batting_avg of
        None \<Rightarrow> v
      | Some a \<Rightarrow>
          if player_id \<noteq> [] \<and> f_le (Fin 0) a \<and> f_le a (Fin 1)
          then v\<lparr>cache := AList.update player_id (PreviousAvg a (now w)) (cache v)\<rparr>
          else v)"

definition clear_cache :: "validator \<Rightarrow> validator" where
  "clear_cache v = v\<lparr>cache := []\<rparr>"

section \<open>The three-tier cascade\<close>

text \<open>Tier 1, lines 100-110. The write is in no \<open>try\<close>.\<close>

definition apply_previous_game_fallback ::
  "validator \<Rightarrow> world \<Rightarrow> series \<Rightarrow> string option \<Rightarrow> py_error + series" where
  "apply_previous_game_fallback v w s player_id =
     (case player_id of
        None \<Rightarrow> Inr s
      | Some p \<Rightarrow>
          if p = [] then Inr s
          else (case map_of (cache v) p of
                  Some (PreviousAvg previous_avg ts) \<Rightarrow>
                    if is_cache_valid v w ts then set_invalid w previous_avg s else Inr s
                | _ \<Rightarrow> Inr s))"

text \<open>\<open>hits / total_abs\<close> on two counts, \<open>total_abs > 0\<close>.\<close>

definition ratio :: "world \<Rightarrow> nat \<Rightarrow> nat \<Rightarrow> fval" where
  "ratio w h n = round_double w (of_nat h / of_nat n)"

text \<open>Lines 186-194. \<open>data['events']\<close> raises \<open>KeyError\<close> when the column is missing.\<close>

definition calc_overall_avg_from_events ::
  "world \<Rightarrow> table \<Rightarrow> cell list \<Rightarrow> py_error + fval" where
  "calc_overall_avg_from_events w d hit_events =
     (if df_empty d then Inr league_average
      else (case map_of d ''events'' of
              None \<Rightarrow> Inl KeyError
            | Some ev \<Rightarrow>
                let total_abs = nrows d; hits = length (filter (\<lambda>c. c \<in> set hit_events) ev)
                in Inr (if total_abs > 0 then ratio w hits total_abs else league_average)))"

definition season_key :: "string \<Rightarrow> string" where
  "season_key player_id = ''season_avg_'' @ player_id"

text \<open>Lines 205-230: the provider call and the reduction, inside \<open>try\<close>; every
  exception raised there ends in \<open>return None\<close>.\<close>

definition fetch_season_average :: "validator \<Rightarrow> world \<Rightarrow> string \<Rightarrow> fval option \<times> validator" where
  "fetch_season_average v w player_id =
     (case statcast_batter w player_id of
        Inl e \<Rightarrow> (None, v)
      | Inr None \<Rightarrow> (None, v)
      | Inr (Some season_data) \<Rightarrow>
          if df_empty season_data then (None, v)
          else (case calc_overall_avg_from_events w season_data
                        [Str ''single'', Str ''double'', Str ''triple'', Str ''home_run''] of
                  Inl e \<Rightarrow> (None, v)
                | Inr season_avg \<Rightarrow>
                    (Some season_avg,
                     v\<lparr>cache := AList.update (season_key player_id)
                                  (SeasonAvg season_avg (now w)) (cache v)\<rparr>)))"

text \<open>Lines 196-230. The cache lookup is outside the \<open>try\<close>: an entry without the key
  \<open>'value'\<close> raises \<open>KeyError\<close>.\<close>

definition get_player_season_average ::
  "validator \<Rightarrow> world \<Rightarrow> string \<Rightarrow> (py_error + fval option) \<times> validator" where
  "get_player_season_average v w player_id =
     (case map_of (cache v) (season_key player_id) of
        Some (SeasonAvg val ts) \<Rightarrow>
          if is_cache_valid v w ts then (Inr (Some val), v)
          else (case fetch_season_average v w player_id of (r, v') \<Rightarrow> (Inr r, v'))
      | Some (PreviousAvg a ts) \<Rightarrow>
          if is_cache_valid v w ts then (Inl KeyError, v)
          else (case fetch_season_average v w player_id of (r, v') \<Rightarrow> (Inr r, v'))
      | None \<Rightarrow> (case fetch_season_average v w player_id of (r, v') \<Rightarrow> (Inr r, v')))"

text \<open>Tier 2, lines 112-125: any exception of the lookup or of the write is caught
  and the series is returned as it is.\<close>

definition apply_season_average_fallback ::
  "validator \<Rightarrow> world \<Rightarrow> series \<Rightarrow> string option \<Rightarrow> series \<times> validator" where
  "apply_season_average_fallback v w s player_id =
     (case player_id of
        None \<Rightarrow> (s, v)
      | Some p \<Rightarrow>
          if p = [] then (s, v)
          else (case get_player_season_average v w p of
                  (Inl e, v') \<Rightarrow> (s, v')
                | (Inr None, v') \<Rightarrow> (s, v')
                | (Inr (Some season_avg), v') \<Rightarrow>
                    (if True \<in> set (invalid_mask s)
                     then (case set_invalid w season_avg s of Inl e \<Rightarrow> s | Inr s' \<Rightarrow> s')
                     else s, v')))"

text \<open>Tier 3, lines 127-135. The write is in no \<open>try\<close>.\<close>

definition apply_final_fallback :: "world \<Rightarrow> series \<Rightarrow> py_error + series" where
  "apply_final_fallback w s =
     (if True \<in> set (invalid_mask s) then set_invalid w league_average s else Inr s)"

text \<open>Lines 62-98. The first mask raises on a column with a string; a column without
  an invalid value is returned as it is, and no tier runs.\<close>

definition apply_batting_average_fallback ::
  "validator \<Rightarrow> world \<Rightarrow> cell list \<Rightarrow> string option \<Rightarrow> (py_error + cell list) \<times> validator" where
  "apply_batting_average_fallback v w avg_series player_id =
     (case to_series avg_series of
        Inl e \<Rightarrow> (Inl e, v)
      | Inr s \<Rightarrow>
          if True \<notin> set (invalid_mask s) then (Inr avg_series, v)
          else (case apply_previous_game_fallback v w s player_id of
                  Inl e \<Rightarrow> (Inl e, v)
                | Inr s1 \<Rightarrow>
                    (case apply_season_average_fallback v w s1 player_id of
                       (s2, v') \<Rightarrow>
                         (case apply_final_fallback w s2 of
                            Inl e \<Rightarrow> (Inl e, v')
                          | Inr s3 \<Rightarrow> (Inr (cells_of s3), v')))))"

section \<open>Deriving an average column\<close>

text \<open>Float division as numpy makes it: no exception, a zero divisor gives an infinity
  or NaN, and the quotient of two finite numbers is rounded.\<close>

fun f_div :: "world \<Rightarrow> fval \<Rightarrow> fval \<Rightarrow> fval" where
  "f_div w NaN y = NaN"
| "f_div w x NaN = NaN"
| "f_div w (Fin a) (Fin b) =
     (if b = 0 then (if a = 0 then NaN else if 0 < a then PosInf else NegInf)
      else round_double w (a / b))"
| "f_div w (Fin a) PosInf = Fin 0"
| "f_div w (Fin a) NegInf = Fin 0"
| "f_div w PosInf (Fin b) = (if b < 0 then NegInf else PosInf)"
| "f_div w NegInf (Fin b) = (if b < 0 then PosInf else NegInf)"
| "f_div w PosInf PosInf = NaN"
| "f_div w PosInf NegInf = NaN"
| "f_div w NegInf PosInf = NaN"
| "f_div w NegInf NegInf = NaN"

text \<open>\<open>replace(0, np.nan)\<close>, for one cell, and \<open>fillna(a)\<close>, for one value.\<close>

fun replace_zero :: "cell \<Rightarrow> cell" where
  "replace_zero (IntC k) = (if k = 0 then Num NaN else IntC k)"
| "replace_zero (Num x) = (if f_eq x (Fin 0) then Num NaN else Num x)"
| "replace_zero (Str t) = Str t"

definition fillna :: "fval \<Rightarrow> fval \<Rightarrow> fval" where
  "fillna a x = (if isnull x then a else x)"

text \<open>The rows of a table picked by a boolean mask (one group of \<open>groupby\<close>).\<close>

definition select_rows :: "bool list \<Rightarrow> table \<Rightarrow> table" where
  "select_rows keep d = map (\<lambda>(n, col). (n, map snd (filter fst (zip keep col)))) d"

text \<open>Lines 176-184; the body is that of \<open>calc_overall_avg_from_events\<close>.\<close>

definition calc_player_avg_from_events ::
  "world \<Rightarrow> table \<Rightarrow> cell list \<Rightarrow> py_error + fval" where
  "calc_player_avg_from_events w player_data hit_events =
     (if df_empty player_data then Inr league_average
      else (case map_of player_data ''events'' of
              None \<Rightarrow> Inl KeyError
            | Some ev \<Rightarrow>
                let total_abs = nrows player_data;
                    hits = length (filter (\<lambda>c. c \<in> set hit_events) ev)
                in Inr (if total_abs > 0 then ratio w hits total_abs else league_average)))"

fun sequence :: "(py_error + 'a) list \<Rightarrow> py_error + 'a list" where
  "sequence [] = Inr []"
| "sequence (Inl e # rs) = Inl e"
| "sequence (Inr x # rs) = (case sequence rs of Inl e \<Rightarrow> Inl e | Inr xs \<Rightarrow> Inr (x # xs))"

text \<open>Lines 158-174. \<open>groupby\<close> drops the rows whose key is null; \<open>map\<close> then leaves
  them null and \<open>fillna\<close> gives them the league average. When every key is null there
  is no group, \<open>apply\<close> returns an empty table and \<open>map\<close> raises \<open>ValueError\<close>.\<close>

definition calculate_avg_from_events :: "world \<Rightarrow> table \<Rightarrow> py_error + fval list" where
  "calculate_avg_from_events w d =
     (case map_of d ''events'' of
        None \<Rightarrow> Inr (replicate (nrows d) league_average)
      | Some ev \<Rightarrow>
          let hit_events = [Str ''single'', Str ''double'', Str ''triple'', Str ''home_run'']
          in (case map_of d ''player_name'' of
                Some names \<Rightarrow>
                  if \<forall>k \<in> set names. k = Num NaN then Inl ValueError
                  else
                    sequence (map (\<lambda>k. if k = Num NaN then Inr league_average
                                        else (case calc_player_avg_from_events w
                                                     (select_rows (map (\<lambda>n. n = k) names) d)
                                                     hit_events of
                                                Inl e \<Rightarrow> Inl e
                                              | Inr a \<Rightarrow> Inr (fillna league_average a)))
                                   names)
              | None \<Rightarrow>
                  (case calc_overall_avg_from_events w d hit_events of
                     Inl e \<Rightarrow> Inl e
                   | Inr a \<Rightarrow> Inr (replicate (nrows d) a))))"

text \<open>Lines 137-156. Dividing a column that holds a string raises \<open>TypeError\<close>.\<close>

definition calculate_batting_average :: "world \<Rightarrow> table \<Rightarrow> py_error + table" where
  "calculate_batting_average w d =
     (case (map_of d ''hits'', map_of d ''at_bats'') of
        (Some hits, Some at_bats) \<Rightarrow>
          (let at_bats_nonzero = map replace_zero at_bats
           in (case numeric w at_bats_nonzero of
                 Inl e \<Rightarrow> Inl e
               | Inr ab \<Rightarrow>
                   (case numeric w hits of
                      Inl e \<Rightarrow> Inl e
                    | Inr h \<Rightarrow>
                        let calculated = map (\<lambda>(x, y). f_div w x y) (zip h ab)
                        in Inr (AList.update ''calculated_avg''
                                  (map Num (map (fillna league_average) calculated)) d))))
      | _ \<Rightarrow>
          (case map_of d ''events'' of
             Some ev \<Rightarrow>
               (case calculate_avg_from_events w d of
                  Inl e \<Rightarrow> Inl e
                | Inr s \<Rightarrow> Inr (AList.update ''calculated_avg'' (map Num s) d))
           | None \<Rightarrow>
               Inr (AList.update ''calculated_avg''
                      (replicate (nrows d) (Num league_average)) d)))"

section \<open>Validating a table\<close>

text \<open>The loop of lines 52-58 over the names in \<open>avg_columns\<close>.\<close>

fun validate_columns ::
  "validator \<Rightarrow> world \<Rightarrow> string option \<Rightarrow> string list \<Rightarrow> table \<Rightarrow> (py_error + table) \<times> validator" where
  "validate_columns v w player_id [] d = (Inr d, v)"
| "validate_columns v w player_id (col # cols) d =
     (case map_of d col of
        None \<Rightarrow> validate_columns v w player_id cols d
      | Some avg_series \<Rightarrow>
          (case apply_batting_average_fallback v w avg_series player_id of
             (Inl e, v') \<Rightarrow> (Inl e, v')
           | (Inr validated_series, v') \<Rightarrow>
               validate_columns v' w player_id cols (AList.update col validated_series d)))"

text \<open>Lines 27-60; \<open>None\<close> is the absent table.\<close>

definition validate_batting_averages ::
  "validator \<Rightarrow> world \<Rightarrow> table option \<Rightarrow> string option \<Rightarrow> (py_error + table) \<times> validator" where
  "validate_batting_averages v w data player_id =
     (case data of
        None \<Rightarrow> (Inr [], v)
      | Some d \<Rightarrow>
          if df_empty d then (Inr [], v)
          else
            let avg_columns = filter is_avg_column (map fst d)
            in if avg_columns = []
               then (case calculate_batting_average w d of
                       Inl e \<Rightarrow> (Inl e, v)
                     | Inr d' \<Rightarrow> validate_columns v w player_id [''calculated_avg''] d')
               else validate_columns v w player_id avg_columns d)"

section \<open>Validating a player record\<close>

datatype pyval = PyNone | PyStr string | PyNum fval

type_synonym pydict = "(string \<times> pyval) list"

text \<open>Python's truth value: \<open>None\<close>, the empty string and zero are false; NaN is true.\<close>

fun truthy :: "pyval \<Rightarrow> bool" where
  "truthy PyNone = False"
| "truthy (PyStr s) = (s \<noteq> [])"
| "truthy (PyNum x) = (x \<noteq> Fin 0)"

text \<open>\<open>a == b\<close>: numbers compare as floats, values of different kinds are unequal.\<close>

fun py_eq :: "pyval \<Rightarrow> pyval \<Rightarrow> bool" where
  "py_eq (PyNum x) (PyNum y) = f_eq x y"
| "py_eq a b = (a = b)"

text \<open>\<open>d.get(k)\<close>.\<close>

definition get :: "pydict \<Rightarrow> string \<Rightarrow> pyval" where
  "get d k = (case map_of d k of None \<Rightarrow> PyNone | Some x \<Rightarrow> x)"

text \<open>Lines 277-286.\<close>

definition get_default_player_data :: pydict where
  "get_default_player_data =
     [(''name'', PyStr ''Unknown Player''),
      (''player_id'', PyNone),
      (''position'', PyStr ''Unknown''),
      (''team'', PyStr ''Free Agent''),
      (''batting_avg'', PyNum league_average),
      (''data_quality'', PyStr ''INSUFFICIENT_DATA'')]"

text \<open>Lines 288-313.\<close>

definition assess_data_quality :: "pydict \<Rightarrow> string" where
  "assess_data_quality player_data =
     (let s1 = (if truthy (get player_data ''name'')
                   \<and> \<not> py_eq (get player_data ''name'') (PyStr ''Unknown Player'')
                then 1 else 0 :: nat);
          s2 = (if truthy (get player_data ''player_id'') then s1 + 1 else s1);
          s3 = (if truthy (get player_data ''position'')
                   \<and> \<not> py_eq (get player_data ''position'') (PyStr ''Unknown'')
                then s2 + 1 else s2);
          s4 = (if truthy (get player_data ''team'')
                   \<and> \<not> py_eq (get player_data ''team'') (PyStr ''Free Agent'')
                then s3 + 1 else s3);
          quality_score = (if truthy (get player_data ''batting_avg'')
                   \<and> \<not> py_eq (get player_data ''batting_avg'') (PyNum league_average)
                then s4 + 1 else s4);
          total_fields = (5 :: nat);
          quality_percentage = (of_nat quality_score / of_nat total_fields :: rat)
      in if quality_percentage \<ge> 8 / 10 then ''HIGH''
         else if quality_percentage \<ge> 6 / 10 then ''MEDIUM''
         else if quality_percentage \<ge> 4 / 10 then ''LOW''
         else ''INSUFFICIENT_DATA'')"

definition required_fields :: pydict where
  "required_fields =
     [(''name'', PyStr ''Unknown Player''),
      (''player_id'', PyNone),
      (''position'', PyStr ''Unknown''),
      (''team'', PyStr ''Free Agent''),
      (''batting_avg'', PyNum league_average)]"

text \<open>One round of the loop of lines 260-263.\<close>

definition apply_default :: "pydict \<Rightarrow> string \<times> pyval \<Rightarrow> pydict" where
  "apply_default validated_data fd =
     (case fd of (field, default_value) \<Rightarrow>
        (case map_of validated_data field of
           None \<Rightarrow> AList.update field default_value validated_data
         | Some PyNone \<Rightarrow> AList.update field default_value validated_data
         | Some x \<Rightarrow> validated_data))"

text \<open>Lines 236-275. \<open>avg < 0\<close> on a string raises \<open>TypeError\<close>.\<close>

definition validate_player_data :: "validator \<Rightarrow> pydict option \<Rightarrow> py_error + pydict" where
  "validate_player_data v player_data =
     (case player_data of
        None \<Rightarrow> Inr get_default_player_data
      | Some pd \<Rightarrow>
          if pd = [] then Inr get_default_player_data
          else
            let validated_data = foldl apply_default pd required_fields;
                checked =
                  (case map_of validated_data ''batting_avg'' of
                     None \<Rightarrow> Inr validated_data
                   | Some PyNone \<Rightarrow>
                       Inr (AList.update ''batting_avg'' (PyNum league_average) validated_data)
                   | Some (PyStr s) \<Rightarrow> Inl TypeError
                   | Some (PyNum avg) \<Rightarrow>
                       if f_less avg (Fin 0) \<or> f_less (Fin 1) avg
                       then Inr (AList.update ''batting_avg'' (PyNum league_average) validated_data)
                       else Inr validated_data)
            in (case checked of
                  Inl e \<Rightarrow> Inl e
                | Inr vd \<Rightarrow>
                    Inr (AList.update ''data_quality'' (PyStr (assess_data_quality vd)) vd)))"

section \<open>The quality score as the specification words it\<close>

text \<open>
  The specification describes the score as the number of true conditions among five
  ("name present and not the default sentinel", ...) and the bucket by the number of
  good fields: 4-5 HIGH, 3 MEDIUM, 2 LOW, 0-1 INSUFFICIENT\_DATA. These definitions
  follow that wording, for a given reading \<open>present\<close> of "present"; they are compared
  below with \<open>assess_data_quality\<close>, which is translated from the code.
\<close>

definition is_present :: "pyval \<Rightarrow> bool" where
  "is_present x = (x \<noteq> PyNone)"

definition quality_conditions :: "(pyval \<Rightarrow> bool) \<Rightarrow> pydict \<Rightarrow> bool list" where
  "quality_conditions present d =
     [present (get d ''name'') \<and> get d ''name'' \<noteq> PyStr ''Unknown Player'',
      present (get d ''player_id''),
      present (get d ''position'') \<and> get d ''position'' \<noteq> PyStr ''Unknown'',
      present (get d ''team'') \<and> get d ''team'' \<noteq> PyStr ''Free Agent'',
      present (get d ''batting_avg'') \<and> get d ''batting_avg'' \<noteq> PyNum league_average]"

definition quality_bucket :: "nat \<Rightarrow> string" where
  "quality_bucket n =
     (if 4 \<le> n then ''HIGH'' else if n = 3 then ''MEDIUM'' else if n = 2 then ''LOW''
      else ''INSUFFICIENT_DATA'')"

definition stated_data_quality :: "(pyval \<Rightarrow> bool) \<Rightarrow> pydict \<Rightarrow> string" where
  "stated_data_quality present d =
     quality_bucket (length (filter (\<lambda>b. b) (quality_conditions present d)))"

section \<open>A relation between columns, for the proofs\<close>

text \<open>\<open>resolved col col'\<close>: the column \<open>col'\<close> has the length of \<open>col\<close>, holds valid
  numbers only, and each of its cells is the cell of \<open>col\<close>, unless that held an invalid
  number, or holds as a float the number that the cell of \<open>col\<close> held.\<close>

definition resolved :: "cell list \<Rightarrow> cell list \<Rightarrow> bool" where
  "resolved col col' \<longleftrightarrow>
     length col' = length col
     \<and> (\<forall>c \<in> set col'. \<exists>q. number_of c = Some (Fin q) \<and> 0 < q \<and> q \<le> 1)
     \<and> (\<forall>i < length col. col' ! i = col ! i
            \<or> (\<exists>x. number_of (col ! i) = Some x \<and> (invalid x \<or> col' ! i = Num x)))"

section \<open>The worlds of the examples\<close>

text \<open>The rounding of the examples is that of IEEE 754 binary64, to the nearest double
  with ties to even: 53 significant bits, exponents from -1022 (below which the spacing
  stays \<open>2 ^ -1074\<close> and a tiny value rounds to 0) to 1023 (above which a value rounds
  to an infinity).\<close>

definition pow2 :: "int \<Rightarrow> rat" where
  "pow2 e = (if 0 \<le> e then 2 ^ nat e else 1 / 2 ^ nat (- e))"

definition floor_log2 :: "rat \<Rightarrow> int" where
  "floor_log2 a =
     (let (p, q) = quotient_of a;
          e = int (floorlog 2 (nat p)) - int (floorlog 2 (nat q))
      in if pow2 e \<le> a then e else e - 1)"

definition round_half_even :: "rat \<Rightarrow> int" where
  "round_half_even x =
     (let f = \<lfloor>x\<rfloor>; r = x - of_int f
      in if r < 1 / 2 then f else if 1 / 2 < r then f + 1 else if even f then f else f + 1)"

definition binary64 :: "rat \<Rightarrow> fval" where
  "binary64 q =
     (if q = 0 then Fin 0
      else let a = \<bar>q\<bar>;
               e = max (floor_log2 a) (- 1022);
               ulp = pow2 (e - 52);
               n = round_half_even (a / ulp)
           in if 1023 < e \<or> (e = 1023 \<and> n = 2 ^ 53) then (if q < 0 then NegInf else PosInf)
              else Fin (if q < 0 then - (of_int n * ulp) else of_int n * ulp))"

text \<open>The examples run at a given time, with a provider that answers every request
  with \<open>None\<close> or one that is down and raises, on a platform that rounds as above and
  raises on a lossy write.\<close>

definition no_data :: "string \<Rightarrow> py_error + table option" where
  "no_data player_id = Inr None"

definition provider_down :: "string \<Rightarrow> py_error + table option" where
  "provider_down player_id = Inl ProviderError"

definition at_time :: "int \<Rightarrow> (string \<Rightarrow> py_error + table option) \<Rightarrow> world" where
  "at_time t provider =
     \<lparr>now = t, statcast_batter = provider, round_double = binary64, setitem_raises = True\<rparr>"

section \<open>Properties of the mask and of the cascade on one series\<close>

lemma calculated_avg_is_avg: "is_avg_column ''calculated_avg''" by (simp add: is_avg_column_def str_lower_def char_lower_def)

lemma invalid_iff:
  "invalid x \<longleftrightarrow> (case x of Fin q \<Rightarrow> q \<le> 0 \<or> 1 < q | _ \<Rightarrow> True)"
  by (cases x) (auto simp: invalid_def isnull_def f_eq_def)

lemma valid_iff: "\<not> invalid x \<longleftrightarrow> (\<exists>q. x = Fin q \<and> 0 < q \<and> q \<le> 1)"
  by (cases x) (auto simp: invalid_iff)

lemma league_average_valid: "\<not> invalid league_average"
  by (simp add: invalid_iff league_average_def)

lemma mask_any: "True \<in> set (invalid_mask s) \<longleftrightarrow> (\<exists>x \<in> set (values_of s). invalid x)"
  by (auto simp: invalid_mask_def)

lemma fill_invalid_id: "\<forall>x \<in> set s. \<not> invalid x \<Longrightarrow> fill_invalid a s = s"
  by (induction s) (auto simp: fill_invalid_def)

lemma fill_invalid_valid: "\<not> invalid a \<Longrightarrow> x \<in> set (fill_invalid a s) \<Longrightarrow> \<not> invalid x"
  by (auto simp: fill_invalid_def split: if_splits)

lemma fill_invalid_twice:
  "fill_invalid a (fill_invalid b s) = fill_invalid (if invalid b then a else b) s"
  by (induction s) (auto simp: fill_invalid_def)

lemma length_fill_invalid: "length (fill_invalid a s) = length s"
  by (simp add: fill_invalid_def)

text \<open>Columns and their series.\<close>

lemma floats_of_map_Num: "floats_of (map Num s) = Some s"
  by (induction s) auto

lemma ints_of_map_Num: "ints_of (map Num s) = (if s = [] then Some [] else None)"
  by (cases s) auto

lemma to_series_map_Num: "to_series (map Num s) = Inr (Floats s)"
  by (simp add: to_series_def floats_of_map_Num ints_of_map_Num)

lemma ints_of_SomeD: "ints_of cs = Some ks \<Longrightarrow> cs = map IntC ks"
  by (induction cs arbitrary: ks rule: ints_of.induct) (auto split: option.splits)

lemma floats_of_map_IntC: "floats_of (map IntC ks) = Some (map (\<lambda>k. Fin (of_int k)) ks)"
  by (induction ks) auto

lemma floats_of_cells_of: "floats_of (cells_of s) = Some (values_of s)"
  by (cases s) (simp_all add: floats_of_map_Num floats_of_map_IntC)

lemma floats_of_length: "floats_of cs = Some xs \<Longrightarrow> length xs = length cs"
  by (induction cs arbitrary: xs rule: floats_of.induct) (auto split: option.splits)

lemma floats_of_nth:
  "floats_of cs = Some xs \<Longrightarrow> i < length cs \<Longrightarrow> number_of (cs ! i) = Some (xs ! i)"
proof (induction cs arbitrary: xs i rule: floats_of.induct)
  case (3 k cs)
  then show ?case by (cases i) (auto split: option.splits)
next
  case (4 x cs)
  then show ?case by (cases i) (auto split: option.splits)
qed simp_all

lemma to_series_Inl: "to_series cs = Inl e \<Longrightarrow> e = TypeError"
  by (auto simp: to_series_def split: option.splits if_splits)

lemma to_series_values: "to_series cs = Inr s \<Longrightarrow> floats_of cs = Some (values_of s)"
  by (auto simp: to_series_def floats_of_map_IntC split: option.splits if_splits
           dest: ints_of_SomeD)

lemma to_series_Ints: "to_series cs = Inr (Ints ks) \<Longrightarrow> cs = map IntC ks"
  by (auto simp: to_series_def split: option.splits if_splits dest: ints_of_SomeD)

lemma to_series_Floats: "to_series cs = Inr (Floats xs) \<Longrightarrow> floats_of cs = Some xs"
  by (drule to_series_values) simp

text \<open>A write that returns has filled the invalid positions; it keeps a float64
  series float64, and only an int64 series can come out int64.\<close>

lemma set_invalid_Floats: "set_invalid w a (Floats xs) = Inr (Floats (fill_invalid a xs))"
  by (simp add: set_invalid_def)

lemma set_invalid_values:
  "set_invalid w a s = Inr s' \<Longrightarrow> values_of s' = fill_invalid a (values_of s)"
  by (cases s; cases a)
     (auto simp: set_invalid_def fill_invalid_def split: if_splits)

lemma set_invalid_Ints:
  "set_invalid w a s = Inr (Ints ks') \<Longrightarrow> \<exists>ks. s = Ints ks"
  by (cases s; cases a) (auto simp: set_invalid_def split: if_splits)

lemma set_invalid_Inl:
  "set_invalid w a s = Inl e \<Longrightarrow> e = TypeError \<and> setitem_raises w \<and> (\<exists>ks. s = Ints ks)"
  by (cases s; cases a) (auto simp: set_invalid_def split: if_splits)

lemma set_invalid_league_raises:
  "setitem_raises w \<Longrightarrow> set_invalid w league_average (Ints ks) = Inl TypeError"
proof -
  have "\<lfloor>244 / 1000 :: rat\<rfloor> = 0" by (simp add: floor_eq_iff)
  then have "of_int \<lfloor>244 / 1000 :: rat\<rfloor> \<noteq> (244 / 1000 :: rat)" by simp
  then show ?thesis if "setitem_raises w"
    using that by (simp add: set_invalid_def league_average_def)
qed

text \<open>Tier 1 and tier 2 either leave a series alone or write one value that does not
  depend on the series.\<close>

lemma tier1_shape:
  "\<exists>t. \<forall>s. apply_previous_game_fallback v w s pid
            = (case t of None \<Rightarrow> Inr s | Some a \<Rightarrow> set_invalid w a s)"
proof (cases "\<exists>p a ts. pid = Some p \<and> p \<noteq> [] \<and> map_of (cache v) p = Some (PreviousAvg a ts) \<and> is_cache_valid v w ts")
  case True
  then obtain p a ts where "pid = Some p" "p \<noteq> []" "map_of (cache v) p = Some (PreviousAvg a ts)" "is_cache_valid v w ts" by blast
  then have "\<forall>s. apply_previous_game_fallback v w s pid = set_invalid w a s"
    by (simp add: apply_previous_game_fallback_def)
  then show ?thesis by (intro exI[of _ "Some a"]) simp
next
  case False
  then have "\<forall>s. apply_previous_game_fallback v w s pid = Inr s"
    by (auto simp: apply_previous_game_fallback_def split: option.splits cache_entry.splits)
  then show ?thesis by (intro exI[of _ None]) simp
qed

lemma tier2_shape:
  "\<exists>t v2. \<forall>s. apply_season_average_fallback v w s pid
       = (case t of
            None \<Rightarrow> s
          | Some a \<Rightarrow> if True \<in> set (invalid_mask s)
                      then (case set_invalid w a s of Inl e \<Rightarrow> s | Inr s' \<Rightarrow> s') else s, v2)"
proof (cases "\<exists>p. pid = Some p \<and> p \<noteq> []")
  case True
  then obtain p where p: "pid = Some p" "p \<noteq> []" by blast
  obtain r v2 where g: "get_player_season_average v w p = (r, v2)"
    by (cases "get_player_season_average v w p")
  show ?thesis
  proof (cases "\<exists>a. r = Inr (Some a)")
    case True
    then obtain a where "r = Inr (Some a)" by blast
    with p g show ?thesis
      by (intro exI[of _ "Some a"] exI[of _ v2]) (simp add: apply_season_average_fallback_def)
  next
    case False
    with p g show ?thesis
      by (intro exI[of _ None] exI[of _ v2])
         (auto simp: apply_season_average_fallback_def split: sum.splits option.splits)
  qed
next
  case False
  then show ?thesis
    by (intro exI[of _ None] exI[of _ v])
       (auto simp: apply_season_average_fallback_def split: option.splits)
qed

text \<open>When tier 3 returns, every write before it has returned too: a write that tier 2
  has caught leaves an int64 series with an invalid value on a platform that raises,
  and tier 3 raises on it.\<close>

lemma tier3_values:
  "apply_final_fallback w s = Inr s' \<Longrightarrow> values_of s' = fill_invalid league_average (values_of s)"
  by (auto simp: apply_final_fallback_def mask_any fill_invalid_id set_invalid_values
           split: if_splits)

lemma tier3_Ints: "apply_final_fallback w s = Inr (Ints ks') \<Longrightarrow> \<exists>ks. s = Ints ks"
  by (auto simp: apply_final_fallback_def split: if_splits dest: set_invalid_Ints)

lemma tier3_Floats:
  "apply_final_fallback w (Floats xs) = Inr (Floats (fill_invalid league_average xs))"
  by (auto simp: apply_final_fallback_def mask_any fill_invalid_id set_invalid_Floats)

lemma tier3_after_caught:
  assumes "set_invalid w a s = Inl e" "True \<in> set (invalid_mask s)"
  shows "apply_final_fallback w s = Inl TypeError"
proof -
  from set_invalid_Inl[OF assms(1)] obtain ks where "setitem_raises w" "s = Ints ks" by blast
  with assms(2) show ?thesis
    by (simp add: apply_final_fallback_def set_invalid_league_raises)
qed

lemma tier23_values:
  assumes "apply_final_fallback w
             (case t of
                None \<Rightarrow> s
              | Some a \<Rightarrow> if True \<in> set (invalid_mask s)
                          then (case set_invalid w a s of Inl e \<Rightarrow> s | Inr s' \<Rightarrow> s') else s)
           = Inr s3"
  shows "values_of s3
         = fill_invalid (case t of None \<Rightarrow> league_average
                         | Some a \<Rightarrow> if invalid a then league_average else a) (values_of s)
         \<and> (\<forall>ks3. s3 = Ints ks3 \<longrightarrow> (\<exists>ks. s = Ints ks))"
proof (cases t)
  case None
  with assms show ?thesis by (auto dest: tier3_values tier3_Ints)
next
  case (Some a)
  show ?thesis
  proof (cases "True \<in> set (invalid_mask s)")
    case False
    with assms Some have 3: "apply_final_fallback w s = Inr s3" by simp
    from False have "fill_invalid c (values_of s) = values_of s" for c
      by (simp add: mask_any fill_invalid_id)
    with tier3_values[OF 3] tier3_Ints[of w s] 3 show ?thesis by (auto simp: Some)
  next
    case True
    show ?thesis
    proof (cases "set_invalid w a s")
      case (Inl e)
      from tier3_after_caught[OF Inl True] assms Some True Inl show ?thesis by simp
    next
      case (Inr s2)
      with assms Some True have 3: "apply_final_fallback w s2 = Inr s3" by simp
      from tier3_values[OF 3] set_invalid_values[OF Inr]
      have "values_of s3 = fill_invalid (if invalid a then league_average else a) (values_of s)"
        by (simp add: fill_invalid_twice)
      moreover have "(\<exists>ks. s = Ints ks)" if "s3 = Ints ks3" for ks3
      proof -
        from tier3_Ints[of w s2 ks3] 3 that obtain ks2 where "s2 = Ints ks2" by blast
        with set_invalid_Ints[of w a s ks2] Inr show ?thesis by simp
      qed
      ultimately show ?thesis by (simp add: Some)
    qed
  qed
qed

lemma tier1_values:
  assumes "(case t of None \<Rightarrow> Inr s | Some a \<Rightarrow> set_invalid w a s) = Inr s1"
  shows "values_of s1 = (case t of None \<Rightarrow> values_of s | Some a \<Rightarrow> fill_invalid a (values_of s))
         \<and> (\<forall>ks1. s1 = Ints ks1 \<longrightarrow> (\<exists>ks. s = Ints ks))"
  using assms by (cases t) (auto dest: set_invalid_values set_invalid_Ints)

text \<open>The cascade on a column. For a given validator, clock, provider and identifier
  there is one valid value \<open>F\<close>: whenever the cascade returns a column, it holds the
  numbers of the given column with each invalid one replaced by \<open>F\<close>, and a cell is
  the cell it was unless its number was invalid or the column has become float64.\<close>

lemma cells_of_nth:
  "i < length (values_of s) \<Longrightarrow>
     cells_of s ! i = (case s of Ints ks \<Rightarrow> IntC (ks ! i) | Floats xs \<Rightarrow> Num (xs ! i))"
  by (cases s) simp_all

lemma cascade_column:
  "\<exists>F. \<not> invalid F \<and>
     (\<forall>col col' v'. apply_batting_average_fallback v w col pid = (Inr col', v') \<longrightarrow>
        (\<exists>xs. floats_of col = Some xs \<and> floats_of col' = Some (fill_invalid F xs)
            \<and> (col' = col
               \<or> (\<exists>ys. col' = map Num ys)
               \<or> (\<exists>ks ks'. col = map IntC ks \<and> col' = map IntC ks'))))"
proof -
  obtain t1 where t1: "\<forall>s. apply_previous_game_fallback v w s pid
            = (case t1 of None \<Rightarrow> Inr s | Some a \<Rightarrow> set_invalid w a s)"
    using tier1_shape by blast
  obtain t2 v2 where t2: "\<forall>s. apply_season_average_fallback v w s pid
       = (case t2 of
            None \<Rightarrow> s
          | Some a \<Rightarrow> if True \<in> set (invalid_mask s)
                      then (case set_invalid w a s of Inl e \<Rightarrow> s | Inr s' \<Rightarrow> s') else s, v2)"
    using tier2_shape by blast
  define F2 where "F2 = (case t2 of None \<Rightarrow> league_average
                         | Some a \<Rightarrow> if invalid a then league_average else a)"
  define F where "F = (case t1 of None \<Rightarrow> F2 | Some a \<Rightarrow> if invalid a then F2 else a)"
  have F2: "\<not> invalid F2" by (simp add: F2_def league_average_valid split: option.splits)
  then have F: "\<not> invalid F" by (simp add: F_def split: option.splits)
  have "\<exists>xs. floats_of col = Some xs \<and> floats_of col' = Some (fill_invalid F xs)
            \<and> (col' = col
               \<or> (\<exists>ys. col' = map Num ys)
               \<or> (\<exists>ks ks'. col = map IntC ks \<and> col' = map IntC ks'))"
    if r: "apply_batting_average_fallback v w col pid = (Inr col', v')" for col col' v'
  proof -
    from r obtain s where s: "to_series col = Inr s"
      by (cases "to_series col") (auto simp: apply_batting_average_fallback_def)
    have xs: "floats_of col = Some (values_of s)" using s by (rule to_series_values)
    show ?thesis
    proof (cases "True \<in> set (invalid_mask s)")
      case False
      with r s have "col' = col" by (simp add: apply_batting_average_fallback_def)
      moreover from False have "fill_invalid F (values_of s) = values_of s"
        by (simp add: mask_any fill_invalid_id)
      ultimately show ?thesis using xs by simp
    next
      case True
      from r s True obtain s1 where s1: "apply_previous_game_fallback v w s pid = Inr s1"
        by (cases "apply_previous_game_fallback v w s pid")
           (auto simp: apply_batting_average_fallback_def)
      from r s True s1 obtain s3 where
        s3: "apply_final_fallback w (fst (apply_season_average_fallback v w s1 pid)) = Inr s3"
        and c: "col' = cells_of s3"
        by (cases "apply_final_fallback w (fst (apply_season_average_fallback v w s1 pid))")
           (auto simp: apply_batting_average_fallback_def case_prod_beta)
      from s1 t1 have 1: "(case t1 of None \<Rightarrow> Inr s | Some a \<Rightarrow> set_invalid w a s) = Inr s1"
        by simp
      from s3 t2 have 3: "apply_final_fallback w
             (case t2 of
                None \<Rightarrow> s1
              | Some a \<Rightarrow> if True \<in> set (invalid_mask s1)
                          then (case set_invalid w a s1 of Inl e \<Rightarrow> s1 | Inr s' \<Rightarrow> s') else s1)
           = Inr s3" by simp
      note A = tier1_values[OF 1] and B = tier23_values[OF 3]
      have v3: "values_of s3 = fill_invalid F (values_of s)"
        using A[THEN conjunct1] B[THEN conjunct1]
        by (cases t1) (simp_all add: F_def F2_def fill_invalid_twice)
      have shape: "(\<exists>ys. col' = map Num ys) \<or> (\<exists>ks ks'. col = map IntC ks \<and> col' = map IntC ks')"
      proof (cases s3)
        case (Floats ys)
        with c have "col' = map Num ys" by simp
        then show ?thesis by blast
      next
        case (Ints ks3)
        with B obtain ks1 where "s1 = Ints ks1" by blast
        with A obtain ks where "s = Ints ks" by blast
        with s have "col = map IntC ks" by (simp add: to_series_Ints)
        moreover from c Ints have "col' = map IntC ks3" by simp
        ultimately show ?thesis by blast
      qed
      from c have "floats_of col' = Some (values_of s3)" by (simp add: floats_of_cells_of)
      with xs v3 shape show ?thesis by simp
    qed
  qed
  with F show ?thesis by blast
qed

text \<open>On a float64 column no write raises, and the cascade returns.\<close>

lemma tier1_Floats:
  "\<exists>ys. apply_previous_game_fallback v w (Floats xs) pid = Inr (Floats ys)"
proof -
  obtain t where "\<forall>s. apply_previous_game_fallback v w s pid
            = (case t of None \<Rightarrow> Inr s | Some a \<Rightarrow> set_invalid w a s)"
    using tier1_shape by blast
  then show ?thesis by (cases t) (simp_all add: set_invalid_Floats)
qed

lemma tier2_Floats:
  "\<exists>ys. fst (apply_season_average_fallback v w (Floats xs) pid) = Floats ys"
proof -
  obtain t v2 where "\<forall>s. apply_season_average_fallback v w s pid
       = (case t of
            None \<Rightarrow> s
          | Some a \<Rightarrow> if True \<in> set (invalid_mask s)
                      then (case set_invalid w a s of Inl e \<Rightarrow> s | Inr s' \<Rightarrow> s') else s, v2)"
    using tier2_shape by blast
  then show ?thesis by (cases t) (simp_all add: set_invalid_Floats)
qed

lemma float_column_returns:
  "\<exists>col'. fst (apply_batting_average_fallback v w (map Num s) pid) = Inr col'"
proof -
  obtain s1 where s1: "apply_previous_game_fallback v w (Floats s) pid = Inr (Floats s1)"
    using tier1_Floats by blast
  obtain s2 where s2: "fst (apply_season_average_fallback v w (Floats s1) pid) = Floats s2"
    using tier2_Floats by blast
  show ?thesis
    by (simp add: apply_batting_average_fallback_def to_series_map_Num s1 s2 tier3_Floats
                  case_prod_beta)
qed

lemma float_column_result:
  assumes "floats_of col' = Some ys" "length ys = length s"
    and "col' = map Num s \<or> (\<exists>zs. col' = map Num zs) \<or> (\<exists>ks ks'. map Num s = map IntC ks \<and> col' = map IntC ks')"
  shows "col' = map Num ys"
proof -
  from assms(3) consider zs where "col' = map Num zs" | ks ks' where "map Num s = map IntC ks" "col' = map IntC ks'"
    by blast
  then show ?thesis
  proof cases
    case 1
    with assms(1) show ?thesis by (simp add: floats_of_map_Num)
  next
    case 2
    from 2(1) have "s = []" by (cases s; cases ks) auto
    with assms(2) have "ys = []" by simp
    with floats_of_length[OF assms(1)] show ?thesis by simp
  qed
qed

lemma cascade_shape:
  "\<exists>F. \<not> invalid F
     \<and> (\<forall>s. fst (apply_batting_average_fallback v w (map Num s) pid)
             = Inr (map Num (fill_invalid F s)))
     \<and> (\<forall>col col' v'. apply_batting_average_fallback v w col pid = (Inr col', v') \<longrightarrow>
          (\<exists>xs. floats_of col = Some xs \<and> floats_of col' = Some (fill_invalid F xs)
              \<and> (col' = col
                 \<or> (\<exists>ys. col' = map Num ys)
                 \<or> (\<exists>ks ks'. col = map IntC ks \<and> col' = map IntC ks'))))"
proof -
  obtain F where F: "\<not> invalid F"
    and G: "\<forall>col col' v'. apply_batting_average_fallback v w col pid = (Inr col', v') \<longrightarrow>
        (\<exists>xs. floats_of col = Some xs \<and> floats_of col' = Some (fill_invalid F xs)
            \<and> (col' = col
               \<or> (\<exists>ys. col' = map Num ys)
               \<or> (\<exists>ks ks'. col = map IntC ks \<and> col' = map IntC ks')))"
    using cascade_column[of v w pid] by blast
  have "fst (apply_batting_average_fallback v w (map Num s) pid) = Inr (map Num (fill_invalid F s))" for s
  proof -
    obtain col' where c: "fst (apply_batting_average_fallback v w (map Num s) pid) = Inr col'"
      using float_column_returns by blast
    then have "apply_batting_average_fallback v w (map Num s) pid
               = (Inr col', snd (apply_batting_average_fallback v w (map Num s) pid))"
      by (metis prod.collapse)
    from G[rule_format, OF this] obtain xs where
      xs: "floats_of (map Num s) = Some xs" "floats_of col' = Some (fill_invalid F xs)"
        "col' = map Num s \<or> (\<exists>ys. col' = map Num ys) \<or> (\<exists>ks ks'. map Num s = map IntC ks \<and> col' = map IntC ks')"
      by blast
    from xs(1) have "xs = s" by (simp add: floats_of_map_Num)
    with float_column_result[OF xs(2) _ xs(3)] c show ?thesis
      by (simp add: length_fill_invalid)
  qed
  with F G show ?thesis by blast
qed

lemma tier1_live:
  "p \<noteq> [] \<Longrightarrow> map_of (cache v) p = Some (PreviousAvg a ts) \<Longrightarrow> is_cache_valid v w ts
   \<Longrightarrow> apply_previous_game_fallback v w s (Some p) = set_invalid w a s"
  by (simp add: apply_previous_game_fallback_def)

lemma tier1_skipped:
  "\<forall>p. pid = Some p \<and> p \<noteq> [] \<longrightarrow>
        (\<forall>a ts. map_of (cache v) p = Some (PreviousAvg a ts) \<longrightarrow> \<not> is_cache_valid v w ts)
   \<Longrightarrow> apply_previous_game_fallback v w s pid = Inr s"
  by (auto simp: apply_previous_game_fallback_def split: option.splits cache_entry.splits)

lemma season_none_state:
  "get_player_season_average v w p = (r, v') \<Longrightarrow> \<forall>a. r \<noteq> Inr (Some a) \<Longrightarrow> v' = v"
  by (auto simp: get_player_season_average_def fetch_season_average_def
           split: option.splits cache_entry.splits sum.splits if_splits)

lemma tier2_skipped:
  assumes "\<forall>p. pid = Some p \<and> p \<noteq> [] \<longrightarrow> (\<forall>a v'. get_player_season_average v w p \<noteq> (Inr (Some a), v'))"
  shows "apply_season_average_fallback v w s pid = (s, v)"
proof (cases "\<exists>p. pid = Some p \<and> p \<noteq> []")
  case True
  then obtain p where p: "pid = Some p" "p \<noteq> []" by blast
  obtain r v' where g: "get_player_season_average v w p = (r, v')" by (cases "get_player_season_average v w p")
  with assms p have none: "\<forall>a. r \<noteq> Inr (Some a)" by auto
  with g have "v' = v" by (rule season_none_state)
  with g none p show ?thesis
    by (auto simp: apply_season_average_fallback_def split: sum.splits option.splits)
next
  case False
  then show ?thesis by (auto simp: apply_season_average_fallback_def split: option.splits)
qed

lemma cascade_no_data_column:
  assumes "\<forall>p. pid = Some p \<and> p \<noteq> [] \<longrightarrow>
        (\<forall>a ts. map_of (cache v) p = Some (PreviousAvg a ts) \<longrightarrow> \<not> is_cache_valid v w ts)"
    and "\<forall>p. pid = Some p \<and> p \<noteq> [] \<longrightarrow> (\<forall>a v'. get_player_season_average v w p \<noteq> (Inr (Some a), v'))"
    and r: "apply_batting_average_fallback v w col pid = (Inr col', v')"
  shows "v' = v \<and> (\<exists>xs. floats_of col = Some xs \<and> floats_of col' = Some (fill_invalid league_average xs))"
proof -
  have t1: "apply_previous_game_fallback v w s pid = Inr s" for s using assms(1) by (rule tier1_skipped)
  have t2: "apply_season_average_fallback v w s pid = (s, v)" for s using assms(2) by (rule tier2_skipped)
  from r obtain s where s: "to_series col = Inr s"
    by (cases "to_series col") (auto simp: apply_batting_average_fallback_def)
  have xs: "floats_of col = Some (values_of s)" using s by (rule to_series_values)
  show ?thesis
  proof (cases "True \<in> set (invalid_mask s)")
    case False
    with r s have "col' = col" "v' = v" by (simp_all add: apply_batting_average_fallback_def)
    moreover from False have "fill_invalid league_average (values_of s) = values_of s"
      by (simp add: mask_any fill_invalid_id)
    ultimately show ?thesis using xs by simp
  next
    case True
    with r s obtain s3 where 3: "apply_final_fallback w s = Inr s3" and c: "col' = cells_of s3" "v' = v"
      by (cases "apply_final_fallback w s") (auto simp: apply_batting_average_fallback_def t1 t2)
    from tier3_values[OF 3] c xs show ?thesis by (simp add: floats_of_cells_of)
  qed
qed

lemma cascade_no_data:
  assumes "\<forall>p. pid = Some p \<and> p \<noteq> [] \<longrightarrow>
        (\<forall>a ts. map_of (cache v) p = Some (PreviousAvg a ts) \<longrightarrow> \<not> is_cache_valid v w ts)"
    and "\<forall>p. pid = Some p \<and> p \<noteq> [] \<longrightarrow> (\<forall>a v'. get_player_season_average v w p \<noteq> (Inr (Some a), v'))"
  shows "apply_batting_average_fallback v w (map Num s) pid
         = (Inr (map Num (fill_invalid league_average s)), v)"
proof -
  have t1: "apply_previous_game_fallback v w s pid = Inr s" for s using assms(1) by (rule tier1_skipped)
  have t2: "apply_season_average_fallback v w s pid = (s, v)" for s using assms(2) by (rule tier2_skipped)
  have "map Num s = map Num (fill_invalid league_average s)" if "True \<notin> set (invalid_mask (Floats s))"
    using that by (simp add: mask_any fill_invalid_id)
  then show ?thesis
    by (simp add: apply_batting_average_fallback_def to_series_map_Num t1 t2 tier3_Floats)
qed

text \<open>
  Claim C4. In the cascade a null, a zero, a negative value and a value above 1 are all
  invalid. For a given validator, clock, provider and identifier there is one valid
  fallback value \<open>F\<close>, the same for the four shapes: the cascade maps every float64
  column to itself with each invalid entry replaced by \<open>F\<close>, and whenever it returns a
  column, of any dtype, that column holds the numbers of the given one with each
  invalid number replaced by \<open>F\<close>. When tier 1 has no live entry and the season lookup
  yields no average, \<open>F\<close> is the league average 0.244 and the validator is left as it
  was. (On an int64 column the write of 0.244 raises \<open>TypeError\<close> on a platform that
  refuses a lossy write, and the cascade then returns no column.)
\<close>

theorem invalid_shapes_share_one_fallback:
  "(invalid NaN \<and> invalid (Fin 0) \<and> (\<forall>q. q < 0 \<longrightarrow> invalid (Fin q)) \<and> (\<forall>q. 1 < q \<longrightarrow> invalid (Fin q)))
   \<and> (\<exists>F. \<not> invalid F
         \<and> (\<forall>s. fst (apply_batting_average_fallback v w (map Num s) pid)
                 = Inr (map Num (map (\<lambda>x. if invalid x then F else x) s)))
         \<and> (\<forall>col col' v'. apply_batting_average_fallback v w col pid = (Inr col', v') \<longrightarrow>
               (\<exists>xs. floats_of col = Some xs
                   \<and> floats_of col' = Some (map (\<lambda>x. if invalid x then F else x) xs))))
   \<and> ((\<forall>p. pid = Some p \<and> p \<noteq> [] \<longrightarrow>
          (\<forall>a ts. map_of (cache v) p = Some (PreviousAvg a ts) \<longrightarrow> \<not> is_cache_valid v w ts)
          \<and> (\<forall>a v'. get_player_season_average v w p \<noteq> (Inr (Some a), v')))
       \<longrightarrow> (\<forall>s. apply_batting_average_fallback v w (map Num s) pid
                 = (Inr (map Num (map (\<lambda>x. if invalid x then league_average else x) s)), v))
           \<and> (\<forall>col col' v'. apply_batting_average_fallback v w col pid = (Inr col', v') \<longrightarrow>
                 v' = v
                 \<and> (\<exists>xs. floats_of col = Some xs
                      \<and> floats_of col'
                        = Some (map (\<lambda>x. if invalid x then league_average else x) xs))))"
proof (intro conjI impI allI)
  show "\<exists>F. \<not> invalid F
         \<and> (\<forall>s. fst (apply_batting_average_fallback v w (map Num s) pid)
                 = Inr (map Num (map (\<lambda>x. if invalid x then F else x) s)))
         \<and> (\<forall>col col' v'. apply_batting_average_fallback v w col pid = (Inr col', v') \<longrightarrow>
               (\<exists>xs. floats_of col = Some xs
                   \<and> floats_of col' = Some (map (\<lambda>x. if invalid x then F else x) xs)))"
  proof -
    obtain F where F: "\<not> invalid F"
      "\<forall>s. fst (apply_batting_average_fallback v w (map Num s) pid)
             = Inr (map Num (fill_invalid F s))"
      "\<forall>col col' v'. apply_batting_average_fallback v w col pid = (Inr col', v') \<longrightarrow>
          (\<exists>xs. floats_of col = Some xs \<and> floats_of col' = Some (fill_invalid F xs)
              \<and> (col' = col
                 \<or> (\<exists>ys. col' = map Num ys)
                 \<or> (\<exists>ks ks'. col = map IntC ks \<and> col' = map IntC ks')))"
      using cascade_shape[of v w pid] by blast
    from F(3) have "\<forall>col col' v'. apply_batting_average_fallback v w col pid = (Inr col', v') \<longrightarrow>
          (\<exists>xs. floats_of col = Some xs \<and> floats_of col' = Some (fill_invalid F xs))"
      by blast
    with F(1,2) show ?thesis unfolding fill_invalid_def by blast
  qed
next
  fix s
  assume h: "\<forall>p. pid = Some p \<and> p \<noteq> [] \<longrightarrow>
          (\<forall>a ts. map_of (cache v) p = Some (PreviousAvg a ts) \<longrightarrow> \<not> is_cache_valid v w ts)
          \<and> (\<forall>a v'. get_player_season_average v w p \<noteq> (Inr (Some a), v'))"
  have "apply_batting_average_fallback v w (map Num s) pid
         = (Inr (map Num (fill_invalid league_average s)), v)"
    by (rule cascade_no_data) (use h in blast)+
  then show "apply_batting_average_fallback v w (map Num s) pid
                 = (Inr (map Num (map (\<lambda>x. if invalid x then league_average else x) s)), v)"
    by (simp add: fill_invalid_def)
next
  fix col col' v'
  assume h: "\<forall>p. pid = Some p \<and> p \<noteq> [] \<longrightarrow>
          (\<forall>a ts. map_of (cache v) p = Some (PreviousAvg a ts) \<longrightarrow> \<not> is_cache_valid v w ts)
          \<and> (\<forall>a v'. get_player_season_average v w p \<noteq> (Inr (Some a), v'))"
    and r: "apply_batting_average_fallback v w col pid = (Inr col', v')"
  have "v' = v \<and> (\<exists>xs. floats_of col = Some xs \<and> floats_of col' = Some (fill_invalid league_average xs))"
    by (rule cascade_no_data_column[OF _ _ r]) (use h in blast)+
  then show "v' = v" and "\<exists>xs. floats_of col = Some xs
                      \<and> floats_of col'
                        = Some (map (\<lambda>x. if invalid x then league_average else x) xs)"
    by (simp_all add: fill_invalid_def)
qed (simp_all add: invalid_iff)

text \<open>The four shapes next to a valid value in a float64 column, with an empty cache
  and a provider that has no data.\<close>

theorem invalid_shapes_share_one_fallback_witness:
  "apply_batting_average_fallback (init 24) (at_time 0 no_data)
     [Num NaN, Num (Fin 0), Num (Fin (- 1 / 2)), Num (Fin (3 / 2)), Num (Fin (3 / 10))] (Some ''p1'')
   = (Inr [Num (Fin (244 / 1000)), Num (Fin (244 / 1000)), Num (Fin (244 / 1000)),
           Num (Fin (244 / 1000)), Num (Fin (3 / 10))], init 24)"
proof -
  let ?v = "init 24" and ?w = "at_time 0 no_data"
  have h: "\<forall>p. Some ''p1'' = Some p \<and> p \<noteq> [] \<longrightarrow>
          (\<forall>a ts. map_of (cache ?v) p = Some (PreviousAvg a ts) \<longrightarrow> \<not> is_cache_valid ?v ?w ts)
          \<and> (\<forall>a v'. get_player_season_average ?v ?w p \<noteq> (Inr (Some a), v'))"
    by (simp add: init_def get_player_season_average_def fetch_season_average_def
                  at_time_def no_data_def)
  note c = invalid_shapes_share_one_fallback[of ?v ?w "Some ''p1''", THEN conjunct2, THEN conjunct2,
             THEN mp, OF h, THEN conjunct1]
  from c[THEN spec, of "[NaN, Fin 0, Fin (- 1 / 2), Fin (3 / 2), Fin (3 / 10)]"]
  show ?thesis by (simp add: invalid_iff league_average_def)
qed

text \<open>
  Claim C7. A cache entry is live exactly when \<open>now - timestamp < cache_duration\<close>.
  For an entry of the identifier, a live entry makes tier 1 write its \<open>previous_avg\<close>
  to the invalid positions (on a float64 series the write fills them); an entry whose
  age is at least the duration makes tier 1 return the series untouched, and when the
  season lookup yields no average either, the cascade resolves every invalid value of
  a float64 column to the league average 0.244 and not to the cached value, and so
  does every call of the cascade that returns a column.
\<close>

theorem stale_entry_skips_tier1:
  "(is_cache_valid v w ts \<longleftrightarrow> now w - ts < cache_duration v)
   \<and> (p \<noteq> [] \<and> map_of (cache v) p = Some (PreviousAvg a ts) \<longrightarrow>
        (now w - ts < cache_duration v \<longrightarrow>
           apply_previous_game_fallback v w s (Some p) = set_invalid w a s
           \<and> apply_previous_game_fallback v w (Floats xs) (Some p)
             = Inr (Floats (fill_invalid a xs)))
        \<and> (cache_duration v \<le> now w - ts \<longrightarrow>
             apply_previous_game_fallback v w s (Some p) = Inr s
             \<and> ((\<forall>b v'. get_player_season_average v w p \<noteq> (Inr (Some b), v')) \<longrightarrow>
                  apply_batting_average_fallback v w (map Num xs) (Some p)
                  = (Inr (map Num (fill_invalid league_average xs)), v)
                  \<and> (\<forall>col col' v'.
                        apply_batting_average_fallback v w col (Some p) = (Inr col', v') \<longrightarrow>
                        v' = v
                        \<and> (\<exists>ys. floats_of col = Some ys
                             \<and> floats_of col' = Some (fill_invalid league_average ys))))))"
proof (intro conjI impI allI)
  show "is_cache_valid v w ts \<longleftrightarrow> now w - ts < cache_duration v"
    by (simp add: is_cache_valid_def)
next
  assume "p \<noteq> [] \<and> map_of (cache v) p = Some (PreviousAvg a ts)" "now w - ts < cache_duration v"
  then have l: "apply_previous_game_fallback v w s (Some p) = set_invalid w a s" for s
    by (simp add: tier1_live is_cache_valid_def)
  show "apply_previous_game_fallback v w s (Some p) = set_invalid w a s" by (rule l)
  show "apply_previous_game_fallback v w (Floats xs) (Some p) = Inr (Floats (fill_invalid a xs))"
    by (simp add: l set_invalid_Floats)
next
  assume e: "p \<noteq> [] \<and> map_of (cache v) p = Some (PreviousAvg a ts)"
    and old: "cache_duration v \<le> now w - ts"
  then have stale: "\<forall>q. Some p = Some q \<and> q \<noteq> [] \<longrightarrow>
        (\<forall>a ts. map_of (cache v) q = Some (PreviousAvg a ts) \<longrightarrow> \<not> is_cache_valid v w ts)"
    by (auto simp: is_cache_valid_def)
  then show "apply_previous_game_fallback v w s (Some p) = Inr s" by (rule tier1_skipped)
  assume "\<forall>b v'. get_player_season_average v w p \<noteq> (Inr (Some b), v')"
  then have none: "\<forall>q. Some p = Some q \<and> q \<noteq> [] \<longrightarrow> (\<forall>a v'. get_player_season_average v w q \<noteq> (Inr (Some a), v'))"
    by auto
  from stale none show "apply_batting_average_fallback v w (map Num xs) (Some p)
                  = (Inr (map Num (fill_invalid league_average xs)), v)"
    by (rule cascade_no_data)
  fix col col' v'
  assume r: "apply_batting_average_fallback v w col (Some p) = (Inr col', v')"
  from cascade_no_data_column[OF stale none r]
  show "v' = v" and "\<exists>ys. floats_of col = Some ys
                             \<and> floats_of col' = Some (fill_invalid league_average ys)"
    by simp_all
qed

text \<open>An entry cached at time 0 by a validator with a one-hour duration, read exactly
  one hour later (the boundary, stale) and one microsecond earlier (live).\<close>

theorem stale_entry_skips_tier1_witness:
  "apply_batting_average_fallback
     (cache_player_average (init 1) (at_time 0 no_data) ''p1'' (Some (Fin (3 / 10))))
     (at_time 3600000000 no_data)
     (map Num [Fin (1 / 4), NaN, Fin 0]) (Some ''p1'')
   = (Inr [Num (Fin (1 / 4)), Num (Fin (244 / 1000)), Num (Fin (244 / 1000))],
      cache_player_average (init 1) (at_time 0 no_data) ''p1'' (Some (Fin (3 / 10))))
   \<and> apply_previous_game_fallback
     (cache_player_average (init 1) (at_time 0 no_data) ''p1'' (Some (Fin (3 / 10))))
     (at_time 3599999999 no_data)
     (Floats [Fin (1 / 4), NaN, Fin 0]) (Some ''p1'')
   = Inr (Floats [Fin (1 / 4), Fin (3 / 10), Fin (3 / 10)])"
proof -
  let ?wc = "at_time 0 no_data"
  let ?v = "cache_player_average (init 1) ?wc ''p1'' (Some (Fin (3 / 10)))"
  let ?w = "at_time 3600000000 no_data"
  let ?w' = "at_time 3599999999 no_data"
  let ?s = "[Fin (1 / 4), NaN, Fin 0]"
  have v: "?v = \<lparr>cache = [(''p1'', PreviousAvg (Fin (3 / 10)) 0)], cache_duration = 3600000000\<rparr>"
    by (simp add: cache_player_average_def init_def f_le_def f_eq_def at_time_def)
  have e: "''p1'' \<noteq> [] \<and> map_of (cache ?v) ''p1'' = Some (PreviousAvg (Fin (3 / 10)) 0)"
    unfolding v by simp
  have old: "cache_duration ?v \<le> now ?w - 0" unfolding v by (simp add: at_time_def)
  have live: "now ?w' - 0 < cache_duration ?v" unfolding v by (simp add: at_time_def)
  have nodata: "\<forall>b v'. get_player_season_average ?v ?w ''p1'' \<noteq> (Inr (Some b), v')"
    unfolding v by (simp add: get_player_season_average_def fetch_season_average_def season_key_def
                              at_time_def no_data_def)
  note T = stale_entry_skips_tier1[of ?v _ 0 "''p1''" "Fin (3 / 10)" _ ?s, THEN conjunct2, THEN mp, OF e]
  have 1: "apply_batting_average_fallback ?v ?w (map Num ?s) (Some ''p1'')
           = (Inr (map Num (fill_invalid league_average ?s)), ?v)"
    using T[of ?w, THEN conjunct2, THEN mp, OF old, THEN conjunct2, THEN mp, OF nodata, THEN conjunct1] .
  have 2: "apply_previous_game_fallback ?v ?w' (Floats ?s) (Some ''p1'')
           = Inr (Floats (fill_invalid (Fin (3 / 10)) ?s))"
    using T[of ?w', THEN conjunct1, THEN mp, OF live, THEN conjunct2] .
  have f1: "map Num (fill_invalid league_average ?s) = [Num (Fin (1 / 4)), Num (Fin (244 / 1000)), Num (Fin (244 / 1000))]"
    by (simp add: fill_invalid_def invalid_iff league_average_def)
  have f2: "fill_invalid (Fin (3 / 10)) ?s = [Fin (1 / 4), Fin (3 / 10), Fin (3 / 10)]"
    by (simp add: fill_invalid_def invalid_iff)
  show ?thesis using 1 2 unfolding f1 f2 by simp
qed

section \<open>Properties of the column loop\<close>

text \<open>What the cascade returns for a column: a column of the same length, of valid
  numbers only, in which a cell is the cell it was unless that held an invalid number,
  or holds as a float the number it held.\<close>

lemma fallback_resolved:
  assumes "apply_batting_average_fallback v w col pid = (Inr vs, v1)"
  shows "resolved col vs"
proof -
  from cascade_shape[of v w pid] assms obtain F xs where F: "\<not> invalid F"
    and xs: "floats_of col = Some xs" "floats_of vs = Some (fill_invalid F xs)"
    and shape: "vs = col \<or> (\<exists>ys. vs = map Num ys) \<or> (\<exists>ks ks'. col = map IntC ks \<and> vs = map IntC ks')"
    by blast
  have len: "length vs = length col" "length xs = length col"
    using floats_of_length[OF xs(1)] floats_of_length[OF xs(2)] by (simp_all add: length_fill_invalid)
  have nv: "number_of (vs ! i) = Some (fill_invalid F xs ! i)" if "i < length col" for i
    using floats_of_nth[OF xs(2)] that len by simp
  have nc: "number_of (col ! i) = Some (xs ! i)" if "i < length col" for i
    using floats_of_nth[OF xs(1)] that by simp
  have valid: "\<exists>q. number_of c = Some (Fin q) \<and> 0 < q \<and> q \<le> 1" if "c \<in> set vs" for c
  proof -
    from that obtain i where i: "i < length vs" "c = vs ! i" by (auto simp: in_set_conv_nth)
    with len have "fill_invalid F xs ! i \<in> set (fill_invalid F xs)" by (simp add: length_fill_invalid)
    with F have "\<not> invalid (fill_invalid F xs ! i)" by (rule fill_invalid_valid)
    with nv[of i] i len show ?thesis by (auto simp: valid_iff)
  qed
  have cell: "vs ! i = col ! i \<or> (\<exists>x. number_of (col ! i) = Some x \<and> (invalid x \<or> vs ! i = Num x))"
    if i: "i < length col" for i
  proof (cases "invalid (xs ! i)")
    case True
    with nc[OF i] show ?thesis by simp
  next
    case False
    with i len have same: "fill_invalid F xs ! i = xs ! i" by (simp add: fill_invalid_def)
    from shape consider "vs = col" | ys where "vs = map Num ys"
      | ks ks' where "col = map IntC ks" "vs = map IntC ks'" by blast
    then show ?thesis
    proof cases
      case 1
      then show ?thesis by simp
    next
      case 2
      with nv[OF i] same i len have "vs ! i = Num (xs ! i)" by simp
      with nc[OF i] show ?thesis by simp
    next
      case 3
      with nv[OF i] nc[OF i] same i len
      have "Fin (of_int (ks' ! i)) = (Fin (of_int (ks ! i)) :: fval)" by simp
      then have "ks' ! i = ks ! i" by simp
      with 3 i len have "vs ! i = col ! i" by simp
      then show ?thesis by simp
    qed
  qed
  from len(1) valid cell show ?thesis unfolding resolved_def by blast
qed

lemma resolved_trans:
  assumes "resolved a b" "resolved b c"
  shows "resolved a c"
proof -
  from assms have len: "length b = length a" "length c = length a" by (simp_all add: resolved_def)
  from assms(2) have valid: "\<forall>x \<in> set c. \<exists>q. number_of x = Some (Fin q) \<and> 0 < q \<and> q \<le> 1"
    by (simp add: resolved_def)
  have cell: "c ! i = a ! i \<or> (\<exists>x. number_of (a ! i) = Some x \<and> (invalid x \<or> c ! i = Num x))"
    if i: "i < length a" for i
  proof -
    from assms(1) i have ab: "b ! i = a ! i \<or> (\<exists>x. number_of (a ! i) = Some x \<and> (invalid x \<or> b ! i = Num x))"
      by (simp add: resolved_def)
    from assms(2) i len have bc: "c ! i = b ! i \<or> (\<exists>x. number_of (b ! i) = Some x \<and> (invalid x \<or> c ! i = Num x))"
      by (simp add: resolved_def)
    from i len have "b ! i \<in> set b" by simp
    with assms(1) obtain q where q: "number_of (b ! i) = Some (Fin q)" "0 < q" "q \<le> 1"
      unfolding resolved_def by blast
    then have bv: "\<not> invalid (Fin q)" by (simp add: invalid_iff)
    from bc show ?thesis
    proof
      assume "c ! i = b ! i"
      with ab show ?thesis by auto
    next
      assume "\<exists>x. number_of (b ! i) = Some x \<and> (invalid x \<or> c ! i = Num x)"
      with q bv have ci: "c ! i = Num (Fin q)" by auto
      from ab show ?thesis
      proof
        assume "b ! i = a ! i"
        with q ci show ?thesis by simp
      next
        assume "\<exists>x. number_of (a ! i) = Some x \<and> (invalid x \<or> b ! i = Num x)"
        then obtain x where x: "number_of (a ! i) = Some x" "invalid x \<or> b ! i = Num x" by blast
        from x(2) show ?thesis
        proof
          assume "invalid x"
          with x(1) show ?thesis by simp
        next
          assume "b ! i = Num x"
          with q have "x = Fin q" by simp
          with x(1) ci show ?thesis by simp
        qed
      qed
    qed
  qed
  from len(2) valid cell show ?thesis unfolding resolved_def by blast
qed

lemma update_existing_keys:
  "map_of d k = Some x \<Longrightarrow> map fst (AList.update k y d) = map fst d"
  by (induction d) (auto split: if_splits)

lemma update_filter_other:
  "P k \<Longrightarrow> filter (\<lambda>(n, c). \<not> P n) (AList.update k x d) = filter (\<lambda>(n, c). \<not> P n) d"
  by (induction d) auto

lemma validate_columns_keys:
  "validate_columns v w pid cols d = (Inr d', v') \<Longrightarrow> map fst d' = map fst d"
proof (induction cols arbitrary: v d)
  case Nil
  then show ?case by simp
next
  case (Cons c cols)
  show ?case
  proof (cases "map_of d c")
    case None
    with Cons show ?thesis by simp
  next
    case (Some col)
    obtain r v1 where a: "apply_batting_average_fallback v w col pid = (r, v1)"
      by (cases "apply_batting_average_fallback v w col pid")
    with Cons.prems Some obtain vs where r: "r = Inr vs"
      by (cases r) auto
    with Cons.prems Some a have "validate_columns v1 w pid cols (AList.update c vs d) = (Inr d', v')"
      by simp
    then have "map fst d' = map fst (AList.update c vs d)" by (rule Cons.IH)
    with Some show ?thesis by (simp add: update_existing_keys)
  qed
qed

lemma validate_columns_other:
  "validate_columns v w pid cols d = (Inr d', v') \<Longrightarrow> n \<notin> set cols \<Longrightarrow> map_of d' n = map_of d n"
proof (induction cols arbitrary: v d)
  case Nil
  then show ?case by simp
next
  case (Cons c cols)
  show ?case
  proof (cases "map_of d c")
    case None
    with Cons show ?thesis by simp
  next
    case (Some col)
    obtain r v1 where a: "apply_batting_average_fallback v w col pid = (r, v1)"
      by (cases "apply_batting_average_fallback v w col pid")
    with Cons.prems Some obtain vs where r: "r = Inr vs"
      by (cases r) auto
    with Cons.prems Some a have "validate_columns v1 w pid cols (AList.update c vs d) = (Inr d', v')"
      by simp
    moreover from Cons.prems have "n \<notin> set cols" "n \<noteq> c" by auto
    ultimately have "map_of d' n = map_of (AList.update c vs d) n" using Cons.IH by blast
    with \<open>n \<noteq> c\<close> show ?thesis by (simp add: update_conv')
  qed
qed

lemma validate_columns_frame:
  "validate_columns v w pid cols d = (Inr d', v') \<Longrightarrow> \<forall>c \<in> set cols. P c
   \<Longrightarrow> filter (\<lambda>(n, c). \<not> P n) d' = filter (\<lambda>(n, c). \<not> P n) d"
proof (induction cols arbitrary: v d)
  case Nil
  then show ?case by simp
next
  case (Cons c cols)
  show ?case
  proof (cases "map_of d c")
    case None
    with Cons show ?thesis by simp
  next
    case (Some col)
    obtain r v1 where a: "apply_batting_average_fallback v w col pid = (r, v1)"
      by (cases "apply_batting_average_fallback v w col pid")
    with Cons.prems Some obtain vs where r: "r = Inr vs"
      by (cases r) auto
    with Cons.prems Some a have "validate_columns v1 w pid cols (AList.update c vs d) = (Inr d', v')"
      by simp
    moreover from Cons.prems have "\<forall>c \<in> set cols. P c" "P c" by auto
    ultimately have "filter (\<lambda>(n, c). \<not> P n) d' = filter (\<lambda>(n, c). \<not> P n) (AList.update c vs d)"
      using Cons.IH by blast
    with \<open>P c\<close> show ?thesis by (simp add: update_filter_other)
  qed
qed

lemma validate_columns_valid:
  "validate_columns v w pid cols d = (Inr d', v') \<Longrightarrow> n \<in> set cols \<Longrightarrow> map_of d n = Some col
   \<Longrightarrow> \<exists>col'. map_of d' n = Some col' \<and> resolved col col'"
proof (induction cols arbitrary: v d col)
  case Nil
  then show ?case by simp
next
  case (Cons c cols)
  show ?case
  proof (cases "map_of d c")
    case None
    with Cons.prems have "n \<noteq> c" by auto
    with Cons.prems None have "validate_columns v w pid cols d = (Inr d', v')" "n \<in> set cols" by auto
    then show ?thesis using Cons.prems(3) by (rule Cons.IH)
  next
    case (Some colc)
    obtain r v1 where a: "apply_batting_average_fallback v w colc pid = (r, v1)"
      by (cases "apply_batting_average_fallback v w colc pid")
    with Cons.prems Some obtain vs where r: "r = Inr vs"
      by (cases r) auto
    with Cons.prems Some a have rest: "validate_columns v1 w pid cols (AList.update c vs d) = (Inr d', v')"
      by simp
    show ?thesis
    proof (cases "n = c")
      case False
      with Cons.prems have "n \<in> set cols" "map_of (AList.update c vs d) n = Some col"
        by (auto simp: update_conv')
      with rest show ?thesis by (rule Cons.IH)
    next
      case True
      with Some Cons.prems have cc: "colc = col" by simp
      from a r cc have first: "resolved col vs" using fallback_resolved by blast
      have now: "map_of (AList.update c vs d) n = Some vs" using True by (simp add: update_conv')
      show ?thesis
      proof (cases "n \<in> set cols")
        case False
        with rest have "map_of d' n = map_of (AList.update c vs d) n" by (rule validate_columns_other)
        with now first show ?thesis by simp
      next
        case True
        from rest True now obtain col' where "map_of d' n = Some col'" "resolved vs col'"
          using Cons.IH by blast
        with first show ?thesis using resolved_trans by blast
      qed
    qed
  qed
qed

lemma calculate_shape:
  "calculate_batting_average w d = Inr d1 \<Longrightarrow> \<exists>X. d1 = AList.update ''calculated_avg'' X d"
  by (auto simp: calculate_batting_average_def Let_def split: option.splits sum.splits)

section \<open>Validated tables\<close>

lemma validate_columns_member:
  assumes "distinct (map fst d)" "validate_columns v w pid cols d = (Inr d', v')"
    "(n, col') \<in> set d'" "n \<in> set cols"
  shows "\<exists>col. resolved col col'"
proof -
  have keys: "map fst d' = map fst d" using assms(2) by (rule validate_columns_keys)
  from assms(3) have "n \<in> set (map fst d')" by force
  with keys have "n \<in> fst ` set d" by simp
  then have "map_of d n \<noteq> None" by (simp add: map_of_eq_None_iff)
  then obtain col where "map_of d n = Some col" by blast
  with assms(2,4) obtain c' where c': "map_of d' n = Some c'" "resolved col c'"
    using validate_columns_valid by blast
  from keys assms(1) have "distinct (map fst d')" by simp
  with assms(3) have "map_of d' n = Some col'" by simp
  with c' show ?thesis by auto
qed

lemma no_avg_column_keys:
  "filter is_avg_column (map fst d) = [] \<Longrightarrow> is_avg_column n \<Longrightarrow> n \<notin> set (map fst d)"
  by (auto simp: filter_empty_conv)

lemma no_avg_column_lookup:
  "filter is_avg_column (map fst d) = [] \<Longrightarrow> is_avg_column n \<Longrightarrow> map_of d n = None"
  using no_avg_column_keys[of d n] by (simp add: map_of_eq_None_iff)

lemma update_new_keys:
  "map_of d k = None \<Longrightarrow> map fst (AList.update k y d) = map fst d @ [k]"
  by (induction d) (auto split: if_splits)

lemma validate_member:
  assumes "distinct (map fst d)" "validate_batting_averages v w (Some d) pid = (Inr d', v')"
    "(n, col') \<in> set d'" "is_avg_column n"
  shows "\<exists>col. resolved col col'"
proof (cases "df_empty d")
  case True
  with assms(2,3) show ?thesis by (simp add: validate_batting_averages_def)
next
  case ne: False
  show ?thesis
  proof (cases "filter is_avg_column (map fst d) = []")
    case False
    with ne assms(2) have vc: "validate_columns v w pid (filter is_avg_column (map fst d)) d = (Inr d', v')"
      by (simp add: validate_batting_averages_def)
    then have "map fst d' = map fst d" by (rule validate_columns_keys)
    moreover from assms(3) have "n \<in> set (map fst d')" by force
    ultimately have "n \<in> set (map fst d)" by simp
    with assms(4) have "n \<in> set (filter is_avg_column (map fst d))" by simp
    with assms(1) vc assms(3) show ?thesis by (rule validate_columns_member)
  next
    case True
    with ne assms(2) obtain d1 where d1: "calculate_batting_average w d = Inr d1"
      and vc: "validate_columns v w pid [''calculated_avg''] d1 = (Inr d', v')"
      by (auto simp: validate_batting_averages_def split: sum.splits)
    from d1 obtain X where X: "d1 = AList.update ''calculated_avg'' X d" using calculate_shape by blast
    from True have none: "map_of d ''calculated_avg'' = None"
      using calculated_avg_is_avg by (rule no_avg_column_lookup)
    then have keys1: "map fst d1 = map fst d @ [''calculated_avg'']" unfolding X by (rule update_new_keys)
    from True have "''calculated_avg'' \<notin> set (map fst d)"
      using calculated_avg_is_avg by (rule no_avg_column_keys)
    with keys1 assms(1) have dist1: "distinct (map fst d1)" by simp
    from vc have "map fst d' = map fst d1" by (rule validate_columns_keys)
    moreover from assms(3) have "n \<in> set (map fst d')" by force
    ultimately have "n \<in> set (map fst d @ [''calculated_avg''])" using keys1 by simp
    then have "n \<in> set (map fst d) \<or> n = ''calculated_avg''" by auto
    moreover from True assms(4) have "n \<notin> set (map fst d)" by (rule no_avg_column_keys)
    ultimately have "n \<in> set [''calculated_avg'']" by simp
    with dist1 vc assms(3) show ?thesis by (rule validate_columns_member)
  qed
qed

text \<open>
  Claim C1. Tier 3 leaves no invalid value in a series: on a float64 series it returns,
  and whenever it returns the mask of its result is empty. For every table (with
  distinct column names) and every optional identifier, when
  \<open>validate_batting_averages\<close> returns a table, every column of the result whose name
  contains \<open>avg\<close> or \<open>average\<close>, the derived \<open>calculated_avg\<close> included, holds only
  finite numbers \<open>q\<close> with \<open>0 < q \<le> 1\<close>: no null, nothing below 0, nothing above 1.
\<close>

theorem validated_average_columns_in_range:
  "(\<exists>ys. apply_final_fallback w (Floats xs) = Inr (Floats ys) \<and> (\<forall>x \<in> set ys. \<not> invalid x))
   \<and> (\<forall>s'. apply_final_fallback w s = Inr s' \<longrightarrow> (\<forall>x \<in> set (values_of s'). \<not> invalid x))
   \<and> ((\<forall>d. data = Some d \<longrightarrow> distinct (map fst d))
        \<and> validate_batting_averages v w data pid = (Inr d', v')
      \<longrightarrow> (\<forall>(n, col) \<in> set d'. is_avg_column n \<longrightarrow>
             (\<forall>c \<in> set col. \<exists>q. number_of c = Some (Fin q) \<and> 0 < q \<and> q \<le> 1)))"
proof (intro conjI impI allI)
  show "\<exists>ys. apply_final_fallback w (Floats xs) = Inr (Floats ys) \<and> (\<forall>x \<in> set ys. \<not> invalid x)"
    using league_average_valid by (auto simp: tier3_Floats dest: fill_invalid_valid)
next
  fix s'
  assume "apply_final_fallback w s = Inr s'"
  then have "values_of s' = fill_invalid league_average (values_of s)" by (rule tier3_values)
  then show "\<forall>x \<in> set (values_of s'). \<not> invalid x"
    using league_average_valid by (auto dest: fill_invalid_valid)
next
  assume h: "(\<forall>d. data = Some d \<longrightarrow> distinct (map fst d))
        \<and> validate_batting_averages v w data pid = (Inr d', v')"
  show "\<forall>(n, col) \<in> set d'. is_avg_column n \<longrightarrow>
             (\<forall>c \<in> set col. \<exists>q. number_of c = Some (Fin q) \<and> 0 < q \<and> q \<le> 1)"
  proof (cases data)
    case None
    with h show ?thesis by (simp add: validate_batting_averages_def)
  next
    case (Some d)
    show ?thesis
    proof (clarify)
      fix n col c
      assume m: "(n, col) \<in> set d'" "is_avg_column n" "c \<in> set col"
      from h Some have "distinct (map fst d)" "validate_batting_averages v w (Some d) pid = (Inr d', v')"
        by auto
      with m(1,2) obtain col0 where "resolved col0 col"
        using validate_member by blast
      with m(3) show "\<exists>q. number_of c = Some (Fin q) \<and> 0 < q \<and> q \<le> 1"
        unfolding resolved_def by blast
    qed
  qed
qed

text \<open>The sample of the test suite: a valid value, a null, a zero and 1.5.\<close>

theorem validated_average_columns_in_range_witness:
  "validate_batting_averages (init 1) (at_time 0 no_data)
     (Some [(''player_name'', [Str ''Player A'', Str ''Player B'', Str ''Player C'', Str ''Player D'']),
            (''batting_avg'', [Num (Fin (1 / 4)), Num NaN, Num (Fin 0), Num (Fin (3 / 2))])]) None
   = (Inr [(''player_name'', [Str ''Player A'', Str ''Player B'', Str ''Player C'', Str ''Player D'']),
           (''batting_avg'', [Num (Fin (1 / 4)), Num (Fin (61 / 250)), Num (Fin (61 / 250)),
                              Num (Fin (61 / 250))])], init 1)
   \<and> is_avg_column ''batting_avg''
   \<and> (\<exists>q. number_of (Num (Fin (61 / 250))) = Some (Fin q) \<and> 0 < q \<and> q \<le> 1)"
proof -
  let ?w = "at_time 0 no_data"
  let ?d = "[(''player_name'', [Str ''Player A'', Str ''Player B'', Str ''Player C'', Str ''Player D'']),
            (''batting_avg'', [Num (Fin (1 / 4)), Num NaN, Num (Fin 0), Num (Fin (3 / 2))])]"
  let ?col = "[Num (Fin (1 / 4)), Num (Fin (61 / 250)), Num (Fin (61 / 250)), Num (Fin (61 / 250))]"
  let ?d' = "[(''player_name'', [Str ''Player A'', Str ''Player B'', Str ''Player C'', Str ''Player D'']),
           (''batting_avg'', ?col)]"
  have ev: "validate_batting_averages (init 1) ?w (Some ?d) None = (Inr ?d', init 1)"
    by code_simp
  have dist: "\<forall>d. Some ?d = Some d \<longrightarrow> distinct (map fst d)" by simp
  have avg: "is_avg_column ''batting_avg''"
    by (simp add: is_avg_column_def str_lower_def char_lower_def)
  note A = validated_average_columns_in_range[of _ _ _ "Some ?d" "init 1" None ?d' "init 1",
          THEN conjunct2, THEN conjunct2, THEN mp, OF conjI[OF dist ev]]
  have m: "(''batting_avg'', ?col) \<in> set ?d'" by simp
  from A[THEN bspec, OF m] avg
  have "\<forall>c \<in> set ?col. \<exists>q. number_of c = Some (Fin q) \<and> 0 < q \<and> q \<le> 1" by simp
  then have "\<exists>q. number_of (Num (Fin (61 / 250))) = Some (Fin q) \<and> 0 < q \<and> q \<le> 1" by simp
  with ev avg show ?thesis by blast
qed

lemma nrows_update_existing:
  "map_of d k = Some col \<Longrightarrow> length x = length col \<Longrightarrow> nrows (AList.update k x d) = nrows d"
  by (cases d) (auto simp: nrows_def split: if_splits)

lemma nrows_update_new:
  "d \<noteq> [] \<Longrightarrow> map_of d k = None \<Longrightarrow> nrows (AList.update k x d) = nrows d"
  by (cases d) (auto simp: nrows_def split: if_splits)


lemma validate_columns_nrows:
  "validate_columns v w pid cols d = (Inr d', v') \<Longrightarrow> nrows d' = nrows d"
proof (induction cols arbitrary: v d)
  case Nil
  then show ?case by simp
next
  case (Cons c cols)
  show ?case
  proof (cases "map_of d c")
    case None
    with Cons show ?thesis by simp
  next
    case (Some col)
    obtain r v1 where a: "apply_batting_average_fallback v w col pid = (r, v1)"
      by (cases "apply_batting_average_fallback v w col pid")
    with Cons.prems Some obtain vs where r: "r = Inr vs"
      by (cases r) auto
    with Cons.prems Some a have "validate_columns v1 w pid cols (AList.update c vs d) = (Inr d', v')"
      by simp
    then have "nrows d' = nrows (AList.update c vs d)" by (rule Cons.IH)
    moreover from a r have "length vs = length col"
      using fallback_resolved[of v w col pid vs v1] by (simp add: resolved_def)
    ultimately show ?thesis using Some by (simp add: nrows_update_existing)
  qed
qed

text \<open>Every column of the input is still there, with its length, and differs at most where
  it held an invalid number or where an integer has become the float of the same value.\<close>

lemma validate_columns_column:
  assumes "validate_columns v w pid cols d = (Inr d', v')" "map_of d n = Some col"
  shows "\<exists>col'. map_of d' n = Some col' \<and> length col' = length col
          \<and> (\<forall>i < length col. col' ! i = col ! i
                \<or> (\<exists>x. number_of (col ! i) = Some x \<and> (invalid x \<or> col' ! i = Num x)))"
proof (cases "n \<in> set cols")
  case False
  with assms show ?thesis using validate_columns_other[of v w pid cols d d' v' n] by simp
next
  case True
  with assms obtain col' where "map_of d' n = Some col'" "resolved col col'"
    using validate_columns_valid by blast
  then show ?thesis unfolding resolved_def by blast
qed

text \<open>
  Claim C9. When \<open>validate_batting_averages\<close> returns a table, every column of the
  result whose name is not average-like is a column of the input, and the number of
  rows is the input's. On a non-empty input the columns that are not average-like are
  the input's, in the same order and with the same cells; the column names are the
  input's, with \<open>calculated_avg\<close> appended when the input had no average-like column;
  and every input column keeps its length and changes at most in the rows where it
  held an invalid number, or, when an int64 column has become float64, to hold as a
  float the number it held. (An empty input gives the empty table.)
\<close>

theorem other_columns_pass_through:
  "validate_batting_averages v w (Some d) pid = (Inr d', v') \<longrightarrow>
     (\<forall>n col. \<not> is_avg_column n \<and> (n, col) \<in> set d' \<longrightarrow> (n, col) \<in> set d)
     \<and> nrows d' = nrows d
     \<and> (\<not> df_empty d \<longrightarrow>
          filter (\<lambda>(n, c). \<not> is_avg_column n) d' = filter (\<lambda>(n, c). \<not> is_avg_column n) d
          \<and> map fst d' = (if filter is_avg_column (map fst d) = []
                           then map fst d @ [''calculated_avg''] else map fst d)
          \<and> (\<forall>n col. map_of d n = Some col \<longrightarrow>
                (\<exists>col'. map_of d' n = Some col' \<and> length col' = length col
                   \<and> (\<forall>i < length col. col' ! i = col ! i
                         \<or> (\<exists>x. number_of (col ! i) = Some x \<and> (invalid x \<or> col' ! i = Num x))))))"
proof
  assume val: "validate_batting_averages v w (Some d) pid = (Inr d', v')"
  show "(\<forall>n col. \<not> is_avg_column n \<and> (n, col) \<in> set d' \<longrightarrow> (n, col) \<in> set d)
     \<and> nrows d' = nrows d
     \<and> (\<not> df_empty d \<longrightarrow>
          filter (\<lambda>(n, c). \<not> is_avg_column n) d' = filter (\<lambda>(n, c). \<not> is_avg_column n) d
          \<and> map fst d' = (if filter is_avg_column (map fst d) = []
                           then map fst d @ [''calculated_avg''] else map fst d)
          \<and> (\<forall>n col. map_of d n = Some col \<longrightarrow>
                (\<exists>col'. map_of d' n = Some col' \<and> length col' = length col
                   \<and> (\<forall>i < length col. col' ! i = col ! i \<or> (\<exists>x. number_of (col ! i) = Some x \<and> (invalid x \<or> col' ! i = Num x))))))"
  proof (cases "df_empty d")
    case True
    with val have "d' = []" by (simp add: validate_batting_averages_def)
    with True show ?thesis by (auto simp: df_empty_def nrows_def)
  next
    case ne: False
    have main: "filter (\<lambda>(n, c). \<not> is_avg_column n) d' = filter (\<lambda>(n, c). \<not> is_avg_column n) d
          \<and> nrows d' = nrows d
          \<and> map fst d' = (if filter is_avg_column (map fst d) = []
                           then map fst d @ [''calculated_avg''] else map fst d)
          \<and> (\<forall>n col. map_of d n = Some col \<longrightarrow>
                (\<exists>col'. map_of d' n = Some col' \<and> length col' = length col
                   \<and> (\<forall>i < length col. col' ! i = col ! i \<or> (\<exists>x. number_of (col ! i) = Some x \<and> (invalid x \<or> col' ! i = Num x)))))"
    proof (cases "filter is_avg_column (map fst d) = []")
      case False
      with ne val have vc: "validate_columns v w pid (filter is_avg_column (map fst d)) d = (Inr d', v')"
        by (simp add: validate_batting_averages_def)
      have 1: "filter (\<lambda>(n, c). \<not> is_avg_column n) d' = filter (\<lambda>(n, c). \<not> is_avg_column n) d"
        using vc by (rule validate_columns_frame) simp
      have 2: "nrows d' = nrows d" using vc by (rule validate_columns_nrows)
      have 3: "map fst d' = map fst d" using vc by (rule validate_columns_keys)
      have 4: "\<forall>n col. map_of d n = Some col \<longrightarrow>
                (\<exists>col'. map_of d' n = Some col' \<and> length col' = length col
                   \<and> (\<forall>i < length col. col' ! i = col ! i \<or> (\<exists>x. number_of (col ! i) = Some x \<and> (invalid x \<or> col' ! i = Num x))))"
        using validate_columns_column[OF vc] by blast
      from False 1 2 3 4 show ?thesis by simp
    next
      case True
      with ne val obtain d1 where d1: "calculate_batting_average w d = Inr d1"
        and vc: "validate_columns v w pid [''calculated_avg''] d1 = (Inr d', v')"
        by (auto simp: validate_batting_averages_def split: sum.splits)
      from d1 obtain X where X: "d1 = AList.update ''calculated_avg'' X d" using calculate_shape by blast
      from True have none: "map_of d ''calculated_avg'' = None"
        using calculated_avg_is_avg by (rule no_avg_column_lookup)
      have "filter (\<lambda>(n, c). \<not> is_avg_column n) d' = filter (\<lambda>(n, c). \<not> is_avg_column n) d1"
        using vc by (rule validate_columns_frame) (simp add: calculated_avg_is_avg)
      also have "\<dots> = filter (\<lambda>(n, c). \<not> is_avg_column n) d"
        unfolding X using calculated_avg_is_avg by (rule update_filter_other)
      finally have 1: "filter (\<lambda>(n, c). \<not> is_avg_column n) d' = filter (\<lambda>(n, c). \<not> is_avg_column n) d" .
      from ne have "d \<noteq> []" by (simp add: df_empty_def)
      then have "nrows d1 = nrows d" unfolding X using none by (rule nrows_update_new)
      moreover have "nrows d' = nrows d1" using vc by (rule validate_columns_nrows)
      ultimately have 2: "nrows d' = nrows d" by simp
      have "map fst d' = map fst d1" using vc by (rule validate_columns_keys)
      also have "\<dots> = map fst d @ [''calculated_avg'']" unfolding X using none by (rule update_new_keys)
      finally have 3: "map fst d' = map fst d @ [''calculated_avg'']" .
      have 4: "\<exists>col'. map_of d' n = Some col' \<and> length col' = length col
                   \<and> (\<forall>i < length col. col' ! i = col ! i \<or> (\<exists>x. number_of (col ! i) = Some x \<and> (invalid x \<or> col' ! i = Num x)))"
        if "map_of d n = Some col" for n col
      proof -
        from that none have "n \<noteq> ''calculated_avg''" by auto
        with that have "map_of d1 n = Some col" unfolding X by (simp add: update_conv')
        with vc show ?thesis by (rule validate_columns_column)
      qed
      from True 1 2 3 4 show ?thesis by simp
    qed
    have sub: "(n, col) \<in> set d" if "\<not> is_avg_column n" "(n, col) \<in> set d'" for n col
    proof -
      from that have "(n, col) \<in> set (filter (\<lambda>(n, c). \<not> is_avg_column n) d')" by simp
      with main have "(n, col) \<in> set (filter (\<lambda>(n, c). \<not> is_avg_column n) d)" by simp
      then show ?thesis by simp
    qed
    from main sub show ?thesis by blast
  qed
qed

text \<open>A table without an average-like column: the three input columns are returned
  as they were, next to the derived one.\<close>

text \<open>A table without an average-like column: the three input columns are returned
  as they were, next to the derived one.\<close>

theorem other_columns_pass_through_witness:
  "validate_batting_averages (init 1) (at_time 0 no_data)
     (Some [(''player_name'', [Str ''Player A'', Str ''Player B'']),
            (''hits'', [IntC 75, IntC 120]),
            (''at_bats'', [IntC 300, IntC 320])]) None
   = (Inr [(''player_name'', [Str ''Player A'', Str ''Player B'']),
           (''hits'', [IntC 75, IntC 120]),
           (''at_bats'', [IntC 300, IntC 320]),
           (''calculated_avg'', [Num (Fin (1 / 4)), Num (Fin (3 / 8))])], init 1)
   \<and> filter (\<lambda>(n, c). \<not> is_avg_column n)
        [(''player_name'', [Str ''Player A'', Str ''Player B'']),
           (''hits'', [IntC 75, IntC 120]),
           (''at_bats'', [IntC 300, IntC 320]),
           (''calculated_avg'', [Num (Fin (1 / 4)), Num (Fin (3 / 8))])]
     = filter (\<lambda>(n, c). \<not> is_avg_column n)
         [(''player_name'', [Str ''Player A'', Str ''Player B'']),
            (''hits'', [IntC 75, IntC 120]),
            (''at_bats'', [IntC 300, IntC 320])]"
proof -
  let ?w = "at_time 0 no_data"
  let ?d = "[(''player_name'', [Str ''Player A'', Str ''Player B'']),
            (''hits'', [IntC 75, IntC 120]),
            (''at_bats'', [IntC 300, IntC 320])]"
  let ?d' = "[(''player_name'', [Str ''Player A'', Str ''Player B'']),
           (''hits'', [IntC 75, IntC 120]),
           (''at_bats'', [IntC 300, IntC 320]),
           (''calculated_avg'', [Num (Fin (1 / 4)), Num (Fin (3 / 8))])]"
  have ev: "validate_batting_averages (init 1) ?w (Some ?d) None = (Inr ?d', init 1)"
    by code_simp
  have ne: "\<not> df_empty ?d" by (simp add: df_empty_def nrows_def)
  from other_columns_pass_through[of "init 1" ?w ?d None ?d' "init 1", THEN mp, OF ev,
         THEN conjunct2, THEN conjunct2, THEN mp, OF ne, THEN conjunct1] ev
  show ?thesis by blast
qed

section \<open>A live previous-game entry\<close>

lemma season_key_neq: "season_key p \<noteq> p"
  by (simp add: season_key_def)

lemma fetch_keeps_player_entry:
  "fetch_season_average v w p = (r, v1)
   \<Longrightarrow> cache_duration v1 = cache_duration v \<and> map_of (cache v1) p = map_of (cache v) p"
  using season_key_neq[of p]
  by (auto simp: fetch_season_average_def update_conv' split: sum.splits option.splits if_splits)

lemma get_keeps_player_entry:
  "get_player_season_average v w p = (r, v1)
   \<Longrightarrow> cache_duration v1 = cache_duration v \<and> map_of (cache v1) p = map_of (cache v) p"
  by (auto simp: get_player_season_average_def
           split: option.splits cache_entry.splits if_splits prod.splits
           dest: fetch_keeps_player_entry)

lemma tier2_keeps_player_entry:
  "apply_season_average_fallback v w s (Some p) = (s', v1)
   \<Longrightarrow> cache_duration v1 = cache_duration v \<and> map_of (cache v1) p = map_of (cache v) p"
  by (auto simp: apply_season_average_fallback_def
           split: option.splits sum.splits if_splits prod.splits
           dest: get_keeps_player_entry)

lemma fallback_keeps_player_entry:
  "apply_batting_average_fallback v w col (Some p) = (r, v1)
   \<Longrightarrow> cache_duration v1 = cache_duration v \<and> map_of (cache v1) p = map_of (cache v) p"
  by (auto simp: apply_batting_average_fallback_def Let_def
           split: sum.splits if_splits prod.splits
           dest: tier2_keeps_player_entry)

lemma live_entry_cascade:
  assumes "p \<noteq> []" "map_of (cache v) p = Some (PreviousAvg a ts)" "is_cache_valid v w ts"
    "\<not> invalid a"
  shows "fst (apply_batting_average_fallback v w (map Num s) (Some p))
         = Inr (map Num (fill_invalid a s))"
proof -
  have t1: "apply_previous_game_fallback v w (Floats s) (Some p) = Inr (Floats (fill_invalid a s))"
    using assms(1-3) by (simp add: tier1_live set_invalid_Floats)
  have ok: "\<forall>x \<in> set (fill_invalid a s). \<not> invalid x"
    using assms(4) by (auto dest: fill_invalid_valid)
  then have nomask: "True \<notin> set (invalid_mask (Floats (fill_invalid a s)))"
    by (simp add: mask_any)
  obtain t2 v2 where "\<forall>s. apply_season_average_fallback v w s (Some p)
       = (case t2 of
            None \<Rightarrow> s
          | Some a \<Rightarrow> if True \<in> set (invalid_mask s)
                      then (case set_invalid w a s of Inl e \<Rightarrow> s | Inr s' \<Rightarrow> s') else s, v2)"
    using tier2_shape by blast
  then have t2: "fst (apply_season_average_fallback v w (Floats (fill_invalid a s)) (Some p))
                 = Floats (fill_invalid a s)"
    using nomask by (cases t2) simp_all
  have t3: "apply_final_fallback w (Floats (fill_invalid a s)) = Inr (Floats (fill_invalid a s))"
    using nomask by (simp add: apply_final_fallback_def)
  show ?thesis
  proof (cases "True \<in> set (invalid_mask (Floats s))")
    case True
    then show ?thesis using t2 t3
      by (simp add: apply_batting_average_fallback_def to_series_map_Num t1 case_prod_beta)
  next
    case False
    then show ?thesis
      by (simp add: apply_batting_average_fallback_def to_series_map_Num mask_any fill_invalid_id)
  qed
qed

lemma validate_columns_live:
  assumes "p \<noteq> []" "\<not> invalid a"
  shows "map_of (cache v) p = Some (PreviousAvg a ts) \<Longrightarrow> is_cache_valid v w ts
    \<Longrightarrow> validate_columns v w (Some p) cols d = (Inr d', v') \<Longrightarrow> n \<in> set cols
    \<Longrightarrow> map_of d n = Some (map Num s)
    \<Longrightarrow> map_of d' n = Some (map Num (fill_invalid a s))"
proof (induction cols arbitrary: v d s)
  case Nil
  then show ?case by simp
next
  case (Cons c cols)
  show ?case
  proof (cases "map_of d c")
    case None
    with Cons.prems have "n \<noteq> c" by auto
    with Cons.prems None have "validate_columns v w (Some p) cols d = (Inr d', v')" "n \<in> set cols" by auto
    with Cons.prems(1,2) show ?thesis using Cons.prems(5) Cons.IH by blast
  next
    case (Some colc)
    obtain r v1 where ap: "apply_batting_average_fallback v w colc (Some p) = (r, v1)"
      by (cases "apply_batting_average_fallback v w colc (Some p)")
    with Cons.prems Some obtain vs where r: "r = Inr vs"
      by (cases r) auto
    with Cons.prems Some ap have rest: "validate_columns v1 w (Some p) cols (AList.update c vs d) = (Inr d', v')"
      by simp
    from ap have keep: "cache_duration v1 = cache_duration v" "map_of (cache v1) p = map_of (cache v) p"
      using fallback_keeps_player_entry by blast+
    with Cons.prems(1,2) have live1: "map_of (cache v1) p = Some (PreviousAvg a ts)" "is_cache_valid v1 w ts"
      by (simp_all add: is_cache_valid_def)
    show ?thesis
    proof (cases "n = c")
      case False
      with Cons.prems have "n \<in> set cols" "map_of (AList.update c vs d) n = Some (map Num s)"
        by (auto simp: update_conv')
      with live1 rest show ?thesis using Cons.IH by blast
    next
      case True
      with Some Cons.prems have cc: "colc = map Num s" by simp
      have "fst (apply_batting_average_fallback v w (map Num s) (Some p)) = Inr (map Num (fill_invalid a s))"
        using assms(1) Cons.prems(1,2) assms(2) by (rule live_entry_cascade)
      with ap r cc have vs: "vs = map Num (fill_invalid a s)" by simp
      have here: "map_of (AList.update c vs d) n = Some (map Num (fill_invalid a s))"
        using True vs by (simp add: update_conv')
      show ?thesis
      proof (cases "n \<in> set cols")
        case False
        with rest have "map_of d' n = map_of (AList.update c vs d) n" by (rule validate_columns_other)
        with here show ?thesis by simp
      next
        case True
        with live1 rest here have "map_of d' n = Some (map Num (fill_invalid a (fill_invalid a s)))"
          using Cons.IH by blast
        with assms(2) show ?thesis by (simp add: fill_invalid_twice)
      qed
    qed
  qed
qed

text \<open>A table whose average-like columns are float64 makes no write raise: the loop
  over the columns returns a table.\<close>

lemma validate_columns_returns:
  "\<forall>c \<in> set cols. \<forall>col. map_of d c = Some col \<longrightarrow> (\<exists>s. col = map Num s)
   \<Longrightarrow> \<exists>d' v'. validate_columns v w pid cols d = (Inr d', v')"
proof (induction cols arbitrary: v d)
  case Nil
  then show ?case by simp
next
  case (Cons c cols)
  show ?case
  proof (cases "map_of d c")
    case None
    with Cons.prems Cons.IH[of d v] show ?thesis by simp
  next
    case (Some colc)
    with Cons.prems obtain s where s: "colc = map Num s" by auto
    obtain vs0 where "fst (apply_batting_average_fallback v w (map Num s) pid) = Inr vs0"
      using float_column_returns by blast
    moreover obtain F where "\<forall>s. fst (apply_batting_average_fallback v w (map Num s) pid)
             = Inr (map Num (fill_invalid F s))"
      using cascade_shape[of v w pid] by blast
    ultimately obtain v1 where ap: "apply_batting_average_fallback v w colc pid
        = (Inr (map Num (fill_invalid F s)), v1)"
      unfolding s by (metis prod.collapse)
    have "\<forall>c' \<in> set cols. \<forall>col. map_of (AList.update c (map Num (fill_invalid F s)) d) c' = Some col
            \<longrightarrow> (\<exists>s. col = map Num s)"
      using Cons.prems by (auto simp: update_conv')
    from Cons.IH[OF this, of v1] Some ap show ?thesis by simp
  qed
qed

lemma cache_player_average_entry:
  "p \<noteq> [] \<Longrightarrow> 0 \<le> q \<Longrightarrow> q \<le> 1
   \<Longrightarrow> map_of (cache (cache_player_average v wc p (Some (Fin q)))) p = Some (PreviousAvg (Fin q) (now wc))
      \<and> cache_duration (cache_player_average v wc p (Some (Fin q))) = cache_duration v"
  by (auto simp: cache_player_average_def f_le_def f_eq_def update_conv')

text \<open>
  Claim C2, amended. For a non-empty identifier and a value \<open>q\<close> with \<open>0 < q \<le> 1\<close>:
  after \<open>cache_player_average\<close> has stored \<open>q\<close>, validating a non-empty table for the
  same identifier while the entry is live (\<open>now - timestamp < cache_duration\<close>) gives,
  for an average-like column that is float64: the call returns a table when every
  average-like column of the table is float64; and whenever it returns a table, every
  invalid entry of the column has become \<open>q\<close>, so that an all-null column holds \<open>q\<close> in
  every row, whatever the season data. The value 0, which the cache also accepts, is
  left out: see \<open>cached_zero_is_replaced\<close>.
\<close>

theorem cached_average_fills_null_column:
  "p \<noteq> [] \<and> 0 < q \<and> q \<le> 1 \<and> now w - now wc < cache_duration v
   \<and> \<not> df_empty d \<and> is_avg_column n \<and> map_of d n = Some (map Num s)
   \<longrightarrow> ((\<forall>m col. is_avg_column m \<and> map_of d m = Some col \<longrightarrow> (\<exists>t. col = map Num t))
          \<longrightarrow> (\<exists>d' v'. validate_batting_averages (cache_player_average v wc p (Some (Fin q))) w
                          (Some d) (Some p) = (Inr d', v')))
       \<and> (\<forall>d' v'. validate_batting_averages (cache_player_average v wc p (Some (Fin q))) w
                     (Some d) (Some p) = (Inr d', v')
             \<longrightarrow> map_of d' n = Some (map Num (map (\<lambda>x. if invalid x then Fin q else x) s))
                 \<and> (\<forall>k. s = replicate k NaN \<longrightarrow> map_of d' n = Some (replicate k (Num (Fin q)))))"
proof
  let ?v = "cache_player_average v wc p (Some (Fin q))"
  assume h: "p \<noteq> [] \<and> 0 < q \<and> q \<le> 1 \<and> now w - now wc < cache_duration v
   \<and> \<not> df_empty d \<and> is_avg_column n \<and> map_of d n = Some (map Num s)"
  then have entry: "map_of (cache ?v) p = Some (PreviousAvg (Fin q) (now wc))"
    and dur: "cache_duration ?v = cache_duration v"
    using cache_player_average_entry[of p q v wc] by auto
  from h dur have live: "is_cache_valid ?v w (now wc)" by (simp add: is_cache_valid_def)
  from h have valid: "\<not> invalid (Fin q)" by (simp add: invalid_iff)
  from h have col: "map_of d n = Some (map Num s)" by simp
  then have "map_of d n \<noteq> None" by simp
  then have "n \<in> set (map fst d)" by (simp add: map_of_eq_None_iff)
  with h have mem: "n \<in> set (filter is_avg_column (map fst d))" by simp
  have nonempty: "filter is_avg_column (map fst d) \<noteq> []"
  proof
    assume e: "filter is_avg_column (map fst d) = []"
    from mem show False unfolding e by simp
  qed
  with h have val: "validate_batting_averages ?v w (Some d) (Some p)
                    = validate_columns ?v w (Some p) (filter is_avg_column (map fst d)) d"
    by (simp add: validate_batting_averages_def)
  have returns: "\<exists>d' v'. validate_batting_averages ?v w (Some d) (Some p) = (Inr d', v')"
    if "\<forall>m col. is_avg_column m \<and> map_of d m = Some col \<longrightarrow> (\<exists>t. col = map Num t)"
    unfolding val by (rule validate_columns_returns) (use that in auto)
  have gen: "map_of d' n = Some (map Num (fill_invalid (Fin q) s))"
    if "validate_batting_averages ?v w (Some d) (Some p) = (Inr d', v')" for d' v'
  proof -
    from that have vc: "validate_columns ?v w (Some p) (filter is_avg_column (map fst d)) d = (Inr d', v')"
      unfolding val .
    from h have "p \<noteq> []" by simp
    then show ?thesis using valid entry live vc mem col by (rule validate_columns_live)
  qed
  have nulls: "map Num (fill_invalid (Fin q) (replicate k NaN)) = replicate k (Num (Fin q))" for k
    by (simp add: fill_invalid_def invalid_iff)
  show "((\<forall>m col. is_avg_column m \<and> map_of d m = Some col \<longrightarrow> (\<exists>t. col = map Num t))
          \<longrightarrow> (\<exists>d' v'. validate_batting_averages ?v w (Some d) (Some p) = (Inr d', v')))
       \<and> (\<forall>d' v'. validate_batting_averages ?v w (Some d) (Some p) = (Inr d', v')
             \<longrightarrow> map_of d' n = Some (map Num (map (\<lambda>x. if invalid x then Fin q else x) s))
                 \<and> (\<forall>k. s = replicate k NaN \<longrightarrow> map_of d' n = Some (replicate k (Num (Fin q)))))"
  proof (intro conjI allI impI)
    assume "\<forall>m col. is_avg_column m \<and> map_of d m = Some col \<longrightarrow> (\<exists>t. col = map Num t)"
    then show "\<exists>d' v'. validate_batting_averages ?v w (Some d) (Some p) = (Inr d', v')"
      by (rule returns)
  next
    fix d' v'
    assume r: "validate_batting_averages ?v w (Some d) (Some p) = (Inr d', v')"
    from gen[OF r] show "map_of d' n = Some (map Num (map (\<lambda>x. if invalid x then Fin q else x) s))"
      by (simp add: fill_invalid_def)
    fix k assume "s = replicate k NaN"
    with gen[OF r] show "map_of d' n = Some (replicate k (Num (Fin q)))" by (simp only: nulls)
  qed
qed

text \<open>A cached 0.3 read five microseconds later.\<close>

theorem cached_average_fills_null_column_witness:
  "validate_batting_averages
       (cache_player_average (init 1) (at_time 0 no_data) ''p1'' (Some (Fin (3 / 10))))
       (at_time 5 no_data)
       (Some [(''batting_avg'', map Num (replicate 3 NaN))]) (Some ''p1'')
   = (Inr [(''batting_avg'', [Num (Fin (3 / 10)), Num (Fin (3 / 10)), Num (Fin (3 / 10))])],
      cache_player_average (init 1) (at_time 0 no_data) ''p1'' (Some (Fin (3 / 10))))
   \<and> map_of [(''batting_avg'', [Num (Fin (3 / 10)), Num (Fin (3 / 10)), Num (Fin (3 / 10))])] ''batting_avg''
     = Some (replicate 3 (Num (Fin (3 / 10))))"
proof -
  let ?wc = "at_time 0 no_data"
  let ?w = "at_time 5 no_data"
  let ?v = "cache_player_average (init 1) ?wc ''p1'' (Some (Fin (3 / 10)))"
  let ?d = "[(''batting_avg'', map Num (replicate 3 NaN))]"
  let ?d' = "[(''batting_avg'', [Num (Fin (3 / 10)), Num (Fin (3 / 10)), Num (Fin (3 / 10))])]"
  have ev: "validate_batting_averages ?v ?w (Some ?d) (Some ''p1'') = (Inr ?d', ?v)"
    by code_simp
  have h: "''p1'' \<noteq> [] \<and> (0::rat) < 3 / 10 \<and> (3 / 10 :: rat) \<le> 1
           \<and> now ?w - now ?wc < cache_duration (init 1)
           \<and> \<not> df_empty ?d \<and> is_avg_column ''batting_avg''
           \<and> map_of ?d ''batting_avg'' = Some (map Num (replicate 3 NaN))"
    by (simp add: init_def df_empty_def nrows_def is_avg_column_def str_lower_def char_lower_def
                  at_time_def)
  from cached_average_fills_null_column[of "''p1''" "3 / 10" ?w ?wc "init 1" ?d "''batting_avg''"
         "replicate 3 NaN",
         THEN mp, OF h, THEN conjunct2, THEN spec, THEN spec, THEN mp, OF ev, THEN conjunct2,
         THEN spec, of 3] ev
  show ?thesis by blast
qed

text \<open>
  Claim C2 as stated fails at \<open>v = 0\<close>: the cache accepts 0, tier 1 writes it into the
  null rows, the mask of tier 3 reads 0 as invalid again, and the column ends at the
  league average.
\<close>

theorem cached_zero_is_replaced:
  "cache (cache_player_average (init 1) (at_time 0 no_data) ''p1'' (Some (Fin 0)))
     = [(''p1'', PreviousAvg (Fin 0) 0)]
   \<and> is_cache_valid (cache_player_average (init 1) (at_time 0 no_data) ''p1'' (Some (Fin 0)))
        (at_time 0 no_data) 0
   \<and> fst (validate_batting_averages
        (cache_player_average (init 1) (at_time 0 no_data) ''p1'' (Some (Fin 0)))
        (at_time 0 no_data)
        (Some [(''batting_avg'', [Num NaN, Num NaN])]) (Some ''p1''))
     = Inr [(''batting_avg'', [Num (Fin (244 / 1000)), Num (Fin (244 / 1000))])]
   \<and> Fin (244 / 1000) \<noteq> Fin 0"
  by code_simp

section \<open>A failing provider\<close>

lemma fetch_failure:
  "statcast_batter w p = Inl e \<Longrightarrow> fetch_season_average v w p = (None, v)"
  by (simp add: fetch_season_average_def)

lemma fetch_unavailable:
  "statcast_batter w p = Inr None \<Longrightarrow> fetch_season_average v w p = (None, v)"
  by (simp add: fetch_season_average_def)

lemma is_cache_valid_world:
  "is_cache_valid v (w\<lparr>statcast_batter := f\<rparr>) ts = is_cache_valid v w ts"
  by (simp add: is_cache_valid_def)

lemma set_invalid_world:
  "set_invalid (w\<lparr>statcast_batter := f\<rparr>) = set_invalid w"
proof (intro ext)
  fix a s
  show "set_invalid (w\<lparr>statcast_batter := f\<rparr>) a s = set_invalid w a s"
    by (cases s; cases a) (simp_all add: set_invalid_def)
qed

lemma get_failure_as_unavailable:
  assumes "statcast_batter w p = Inl e"
  shows "get_player_season_average v (w\<lparr>statcast_batter := (statcast_batter w)(p := Inr None)\<rparr>) p
         = get_player_season_average v w p"
proof -
  let ?w' = "w\<lparr>statcast_batter := (statcast_batter w)(p := Inr None)\<rparr>"
  have a: "fetch_season_average v ?w' p = (None, v)" by (rule fetch_unavailable) simp
  have b: "fetch_season_average v w p = (None, v)" using assms by (rule fetch_failure)
  show ?thesis unfolding get_player_season_average_def a b is_cache_valid_world ..
qed

lemma fallback_failure_as_unavailable:
  assumes "statcast_batter w p = Inl e"
  shows "apply_batting_average_fallback v (w\<lparr>statcast_batter := (statcast_batter w)(p := Inr None)\<rparr>) col (Some p)
         = apply_batting_average_fallback v w col (Some p)"
proof -
  let ?w' = "w\<lparr>statcast_batter := (statcast_batter w)(p := Inr None)\<rparr>"
  have 1: "apply_previous_game_fallback v ?w' s (Some p) = apply_previous_game_fallback v w s (Some p)" for s
    by (simp add: apply_previous_game_fallback_def is_cache_valid_world set_invalid_world
             split: option.splits cache_entry.splits)
  have 2: "apply_season_average_fallback v ?w' s (Some p) = apply_season_average_fallback v w s (Some p)" for s
    unfolding apply_season_average_fallback_def set_invalid_world
    by (simp add: get_failure_as_unavailable[OF assms])
  have 3: "apply_final_fallback ?w' s = apply_final_fallback w s" for s
    unfolding apply_final_fallback_def set_invalid_world ..
  show ?thesis unfolding apply_batting_average_fallback_def 1 2 3 ..
qed

lemma validate_columns_failure_as_unavailable:
  assumes "statcast_batter w p = Inl e"
  shows "validate_columns v (w\<lparr>statcast_batter := (statcast_batter w)(p := Inr None)\<rparr>) (Some p) cols d
         = validate_columns v w (Some p) cols d"
  by (induction cols arbitrary: v d)
     (simp_all add: fallback_failure_as_unavailable[OF assms] split: option.splits prod.splits sum.splits)

lemma get_after_failure:
  assumes "statcast_batter w p = Inl e"
    and "\<forall>c. map_of (cache v) (season_key p) = Some c \<longrightarrow> \<not> is_cache_valid v w (timestamp c)"
  shows "get_player_season_average v w p = (Inr None, v)"
  using assms(2) fetch_failure[OF assms(1), of v]
  by (auto simp: get_player_season_average_def split: option.splits cache_entry.splits)

lemma calculate_world:
  "calculate_batting_average (w\<lparr>statcast_batter := f\<rparr>) d = calculate_batting_average w d"
proof -
  have fd: "f_div (w\<lparr>statcast_batter := f\<rparr>) = f_div w"
  proof (intro ext)
    fix x y
    show "f_div (w\<lparr>statcast_batter := f\<rparr>) x y = f_div w x y"
      by (cases "(w, x, y)" rule: f_div.cases) simp_all
  qed
  have tf: "to_float (w\<lparr>statcast_batter := f\<rparr>) c = to_float w c" for c
    by (cases c) simp_all
  have nu: "numeric (w\<lparr>statcast_batter := f\<rparr>) = numeric w"
  proof (intro ext)
    fix cs
    show "numeric (w\<lparr>statcast_batter := f\<rparr>) cs = numeric w cs"
    proof (induction cs)
      case (Cons c cs)
      then show ?case by (simp only: numeric.simps tf)
    qed simp
  qed
  have rt: "ratio (w\<lparr>statcast_batter := f\<rparr>) = ratio w"
    by (simp add: ratio_def fun_eq_iff)
  have cp: "calc_player_avg_from_events (w\<lparr>statcast_batter := f\<rparr>)
            = calc_player_avg_from_events w"
    unfolding calc_player_avg_from_events_def rt ..
  have co: "calc_overall_avg_from_events (w\<lparr>statcast_batter := f\<rparr>)
            = calc_overall_avg_from_events w"
    unfolding calc_overall_avg_from_events_def rt ..
  have ce: "calculate_avg_from_events (w\<lparr>statcast_batter := f\<rparr>) = calculate_avg_from_events w"
    unfolding calculate_avg_from_events_def cp co ..
  show ?thesis
    unfolding calculate_batting_average_def fd nu ce ..
qed

lemma cascade_after_failure_column:
  assumes "statcast_batter w p = Inl e"
    and "\<forall>c. map_of (cache v) (season_key p) = Some c \<longrightarrow> \<not> is_cache_valid v w (timestamp c)"
    and r: "apply_batting_average_fallback v w col (Some p) = (Inr col', v')"
  shows "v' = v
         \<and> (col' = col
            \<or> (\<exists>s s1. to_series col = Inr s
                  \<and> apply_previous_game_fallback v w s (Some p) = Inr s1
                  \<and> floats_of col' = Some (fill_invalid league_average (values_of s1))))"
proof -
  have g: "get_player_season_average v w p = (Inr None, v)" using assms(1,2) by (rule get_after_failure)
  have t2: "apply_season_average_fallback v w s' (Some p) = (s', v)" for s'
    using g by (simp add: apply_season_average_fallback_def)
  from r obtain s where s: "to_series col = Inr s"
    by (cases "to_series col") (auto simp: apply_batting_average_fallback_def)
  show ?thesis
  proof (cases "True \<in> set (invalid_mask s)")
    case False
    with r s show ?thesis by (simp add: apply_batting_average_fallback_def)
  next
    case True
    from r s True obtain s1 where s1: "apply_previous_game_fallback v w s (Some p) = Inr s1"
      by (cases "apply_previous_game_fallback v w s (Some p)")
         (auto simp: apply_batting_average_fallback_def)
    from r s True s1 obtain s3 where 3: "apply_final_fallback w s1 = Inr s3"
      and c: "col' = cells_of s3" "v' = v"
      by (cases "apply_final_fallback w s1") (auto simp: apply_batting_average_fallback_def t2)
    from tier3_values[OF 3] c have "floats_of col' = Some (fill_invalid league_average (values_of s1))"
      by (simp add: floats_of_cells_of)
    with s s1 c(2) show ?thesis by blast
  qed
qed

lemma cascade_after_failure:
  assumes "statcast_batter w p = Inl e"
    and "\<forall>c. map_of (cache v) (season_key p) = Some c \<longrightarrow> \<not> is_cache_valid v w (timestamp c)"
  shows "\<exists>s1. apply_previous_game_fallback v w (Floats s) (Some p) = Inr (Floats s1)
           \<and> apply_batting_average_fallback v w (map Num s) (Some p)
             = (Inr (map Num (fill_invalid league_average s1)), v)"
proof -
  have g: "get_player_season_average v w p = (Inr None, v)" using assms by (rule get_after_failure)
  have t2: "apply_season_average_fallback v w s' (Some p) = (s', v)" for s'
    using g by (simp add: apply_season_average_fallback_def)
  obtain s1 where s1: "apply_previous_game_fallback v w (Floats s) (Some p) = Inr (Floats s1)"
    using tier1_Floats by blast
  show ?thesis
  proof (cases "True \<in> set (invalid_mask (Floats s))")
    case True
    then show ?thesis using s1
      by (simp add: apply_batting_average_fallback_def to_series_map_Num t2 tier3_Floats)
  next
    case False
    then have ok: "\<forall>x \<in> set s. \<not> invalid x" by (simp add: mask_any)
    obtain t where "\<forall>s. apply_previous_game_fallback v w s (Some p)
            = (case t of None \<Rightarrow> Inr s | Some a \<Rightarrow> set_invalid w a s)"
      using tier1_shape by blast
    with ok have "apply_previous_game_fallback v w (Floats s) (Some p) = Inr (Floats s)"
      by (cases t) (simp_all add: set_invalid_Floats fill_invalid_id)
    with s1 have "s1 = s" by simp
    with False ok s1 show ?thesis
      by (simp add: apply_batting_average_fallback_def to_series_map_Num fill_invalid_id)
  qed
qed

text \<open>
  Claim C8. When the provider raises for the identifier, the season lookup returns
  \<open>None\<close> and leaves the cache alone; \<open>validate_batting_averages\<close> gives exactly the
  result (table or error, and validator) it gives when the provider answers \<open>None\<close>,
  so the provider's exception never reaches the caller; and when tier 2 gets as far
  as the provider (no live season entry in the cache), the values still invalid after
  tier 1 become the league average: on a float64 column tier 1 and the cascade return,
  and whenever the cascade returns a column, of any dtype, it is the given column or
  holds the numbers that tier 1 left, each invalid one replaced by 0.244.
\<close>

theorem provider_failure_is_swallowed:
  "statcast_batter w p = Inl e \<longrightarrow>
     fetch_season_average v w p = (None, v)
     \<and> validate_batting_averages v w data (Some p)
       = validate_batting_averages v (w\<lparr>statcast_batter := (statcast_batter w)(p := Inr None)\<rparr>) data (Some p)
     \<and> ((\<forall>c. map_of (cache v) (season_key p) = Some c \<longrightarrow> \<not> is_cache_valid v w (timestamp c))
         \<longrightarrow> (\<exists>s1. apply_previous_game_fallback v w (Floats s) (Some p) = Inr (Floats s1)
                  \<and> apply_batting_average_fallback v w (map Num s) (Some p)
                    = (Inr (map Num (map (\<lambda>x. if invalid x then league_average else x) s1)), v))
             \<and> (\<forall>col col' v'. apply_batting_average_fallback v w col (Some p) = (Inr col', v') \<longrightarrow>
                   v' = v
                   \<and> (col' = col
                      \<or> (\<exists>s s1. to_series col = Inr s
                            \<and> apply_previous_game_fallback v w s (Some p) = Inr s1
                            \<and> floats_of col'
                              = Some (map (\<lambda>x. if invalid x then league_average else x)
                                          (values_of s1))))))"
proof (intro impI conjI allI)
  assume f: "statcast_batter w p = Inl e"
  then show "fetch_season_average v w p = (None, v)" by (rule fetch_failure)
  let ?w' = "w\<lparr>statcast_batter := (statcast_batter w)(p := Inr None)\<rparr>"
  have vc: "validate_columns v ?w' (Some p) cols d = validate_columns v w (Some p) cols d" for cols d
    using f by (rule validate_columns_failure_as_unavailable)
  have cb: "calculate_batting_average ?w' d = calculate_batting_average w d" for d
    by (rule calculate_world)
  show "validate_batting_averages v w data (Some p) = validate_batting_averages v ?w' data (Some p)"
    unfolding validate_batting_averages_def vc cb ..
  assume n: "\<forall>c. map_of (cache v) (season_key p) = Some c \<longrightarrow> \<not> is_cache_valid v w (timestamp c)"
  from cascade_after_failure[OF f n, of s]
  show "\<exists>s1. apply_previous_game_fallback v w (Floats s) (Some p) = Inr (Floats s1)
                  \<and> apply_batting_average_fallback v w (map Num s) (Some p)
                    = (Inr (map Num (map (\<lambda>x. if invalid x then league_average else x) s1)), v)"
    by (simp add: fill_invalid_def)
  fix col col' v'
  assume r: "apply_batting_average_fallback v w col (Some p) = (Inr col', v')"
  from cascade_after_failure_column[OF f n r]
  show "v' = v" and "col' = col
                      \<or> (\<exists>s s1. to_series col = Inr s
                            \<and> apply_previous_game_fallback v w s (Some p) = Inr s1
                            \<and> floats_of col'
                              = Some (map (\<lambda>x. if invalid x then league_average else x)
                                          (values_of s1)))"
    by (simp_all add: fill_invalid_def)
qed

text \<open>A provider that is down, an empty cache, and the four kinds of value.\<close>

theorem provider_failure_is_swallowed_witness:
  "validate_batting_averages (init 1) (at_time 0 provider_down)
     (Some [(''batting_avg'', [Num (Fin (1 / 4)), Num NaN, Num (Fin 0), Num (Fin (3 / 2))])]) (Some ''p1'')
   = (Inr [(''batting_avg'', [Num (Fin (1 / 4)), Num (Fin (61 / 250)), Num (Fin (61 / 250)),
                              Num (Fin (61 / 250))])], init 1)"
proof -
  let ?w = "at_time 0 provider_down"
  let ?d = "[(''batting_avg'', [Num (Fin (1 / 4)), Num NaN, Num (Fin 0), Num (Fin (3 / 2))])]"
  have f: "statcast_batter ?w ''p1'' = Inl ProviderError" by (simp add: provider_down_def at_time_def)
  note E = provider_failure_is_swallowed[of ?w "''p1''" ProviderError "init 1" "Some ?d", THEN mp, OF f,
             THEN conjunct2, THEN conjunct1]
  have "validate_batting_averages (init 1)
          (?w\<lparr>statcast_batter := (statcast_batter ?w)(''p1'' := Inr None)\<rparr>) (Some ?d) (Some ''p1'')
        = (Inr [(''batting_avg'', [Num (Fin (1 / 4)), Num (Fin (61 / 250)), Num (Fin (61 / 250)),
                              Num (Fin (61 / 250))])], init 1)"
    by code_simp
  with E show ?thesis by simp
qed

section \<open>The derived column\<close>

lemma update_append:
  "map_of d k = None \<Longrightarrow> AList.update k x d = d @ [(k, x)]"
  by (induction d) (auto split: if_splits)

lemma update_appended:
  "map_of d k = None \<Longrightarrow> AList.update k y (d @ [(k, x)]) = d @ [(k, y)]"
  by (induction d) (auto split: if_splits)

lemma derived_value_not_null: "fillna league_average x \<noteq> NaN"
  by (simp add: fillna_def isnull_def league_average_def)

lemma numeric_floats:
  "floats_of cs = Some xs \<Longrightarrow> \<exists>ys. numeric w cs = Inr ys \<and> length ys = length cs
      \<and> (\<forall>i < length cs. to_float w (cs ! i) = Inr (ys ! i))"
proof (induction cs arbitrary: xs rule: floats_of.induct)
  case 1
  then show ?case by simp
next
  case (2 t cs)
  then show ?case by simp
next
  case (3 k cs)
  then obtain xs' where "floats_of cs = Some xs'" by (auto split: option.splits)
  with 3 obtain ys where ys: "numeric w cs = Inr ys" "length ys = length cs"
    "\<forall>i < length cs. to_float w (cs ! i) = Inr (ys ! i)" by blast
  have "\<forall>i < length (IntC k # cs). to_float w ((IntC k # cs) ! i) = Inr ((round_double w (of_int k) # ys) ! i)"
    using ys(3) by (auto simp: nth_Cons split: nat.splits)
  with ys(1,2) show ?case by (intro exI[of _ "round_double w (of_int k) # ys"]) simp
next
  case (4 x cs)
  then obtain xs' where "floats_of cs = Some xs'" by (auto split: option.splits)
  with 4 obtain ys where ys: "numeric w cs = Inr ys" "length ys = length cs"
    "\<forall>i < length cs. to_float w (cs ! i) = Inr (ys ! i)" by blast
  have "\<forall>i < length (Num x # cs). to_float w ((Num x # cs) ! i) = Inr ((x # ys) ! i)"
    using ys(3) by (auto simp: nth_Cons split: nat.splits)
  with ys(1,2) show ?case by (intro exI[of _ "x # ys"]) simp
qed

lemma floats_of_replace_zero:
  "floats_of cs = Some xs \<Longrightarrow> \<exists>zs. floats_of (map replace_zero cs) = Some zs"
  by (induction cs arbitrary: xs rule: floats_of.induct) (auto split: option.splits simp: f_eq_def)

lemma replace_zero_zero:
  "number_of c = Some (Fin 0) \<Longrightarrow> replace_zero c = Num NaN"
  by (cases c) (auto simp: f_eq_def)

lemma replace_zero_other:
  "number_of c = Some x \<Longrightarrow> x \<noteq> Fin 0 \<Longrightarrow> replace_zero c = c"
  by (cases c) (auto simp: f_eq_def)

lemma f_div_null: "f_div w x NaN = NaN"
  by (cases x) simp_all

text \<open>
  Claim C6. For a non-empty table without an average-like column whose \<open>hits\<close> and
  \<open>at_bats\<close> columns hold numbers, \<open>calculate_batting_average\<close> appends the float64
  column \<open>calculated_avg\<close>, one value per row: never null; the league average 0.244
  where \<open>at_bats\<close> is zero; and the rounded quotient \<open>hits / at_bats\<close> of the two
  cells read as floats, where both are finite and \<open>at_bats\<close> is not zero.
  \<open>validate_batting_averages\<close> returns the input followed by this column after the
  cascade, which keeps the derived values in (0, 1] and replaces the others (a derived
  0, as of a quotient that rounds to 0, a negative value, a value above 1, an infinity)
  by the fallback value.
\<close>

theorem derived_average_is_hits_over_at_bats:
  "filter is_avg_column (map fst d) = [] \<and> \<not> df_empty d
   \<and> map_of d ''hits'' = Some hits \<and> map_of d ''at_bats'' = Some at_bats
   \<and> length hits = length at_bats
   \<and> floats_of hits = Some hx \<and> floats_of at_bats = Some ax
   \<longrightarrow> (\<exists>col. calculate_batting_average w d = Inr (d @ [(''calculated_avg'', map Num col)])
         \<and> (\<exists>F. \<not> invalid F
                \<and> fst (validate_batting_averages v w (Some d) pid)
                  = Inr (d @ [(''calculated_avg'', map Num (map (\<lambda>x. if invalid x then F else x) col))]))
         \<and> length col = length hits
         \<and> (\<forall>i < length hits.
               col ! i \<noteq> NaN
               \<and> (ax ! i = Fin 0 \<longrightarrow> col ! i = league_average)
               \<and> (\<forall>h a. to_float w (hits ! i) = Inr (Fin h) \<and> to_float w (at_bats ! i) = Inr (Fin a)
                        \<and> ax ! i \<noteq> Fin 0 \<and> a \<noteq> 0
                      \<longrightarrow> col ! i = fillna league_average (round_double w (h / a)))))"
proof
  assume h: "filter is_avg_column (map fst d) = [] \<and> \<not> df_empty d
   \<and> map_of d ''hits'' = Some hits \<and> map_of d ''at_bats'' = Some at_bats
   \<and> length hits = length at_bats
   \<and> floats_of hits = Some hx \<and> floats_of at_bats = Some ax"
  from h obtain hs where hs: "numeric w hits = Inr hs" "length hs = length hits"
    "\<forall>i < length hits. to_float w (hits ! i) = Inr (hs ! i)"
    using numeric_floats by blast
  from h obtain zs where "floats_of (map replace_zero at_bats) = Some zs"
    using floats_of_replace_zero by blast
  then obtain ab where ab: "numeric w (map replace_zero at_bats) = Inr ab"
    "length ab = length (map replace_zero at_bats)"
    "\<forall>i < length (map replace_zero at_bats).
        to_float w (map replace_zero at_bats ! i) = Inr (ab ! i)"
    using numeric_floats by blast
  define col where "col = map (fillna league_average) (map (\<lambda>(x, y). f_div w x y) (zip hs ab))"
  from h have none: "map_of d ''calculated_avg'' = None"
    using calculated_avg_is_avg no_avg_column_lookup by blast
  from h hs(1) ab(1) have calc: "calculate_batting_average w d = Inr (d @ [(''calculated_avg'', map Num col)])"
    by (simp add: calculate_batting_average_def col_def update_append[OF none])
  from h have val0: "validate_batting_averages v w (Some d) pid
           = validate_columns v w pid [''calculated_avg''] (d @ [(''calculated_avg'', map Num col)])"
    by (simp add: validate_batting_averages_def calc)
  obtain F where F: "\<not> invalid F"
    "\<forall>s. fst (apply_batting_average_fallback v w (map Num s) pid) = Inr (map Num (fill_invalid F s))"
    using cascade_shape[of v w pid] by blast
  have val: "\<exists>F. \<not> invalid F
                \<and> fst (validate_batting_averages v w (Some d) pid)
                  = Inr (d @ [(''calculated_avg'', map Num (map (\<lambda>x. if invalid x then F else x) col))])"
  proof -
    obtain r v1 where ap: "apply_batting_average_fallback v w (map Num col) pid = (r, v1)"
      by (cases "apply_batting_average_fallback v w (map Num col) pid")
    with F(2)[rule_format, of col] have r: "r = Inr (map Num (fill_invalid F col))" by simp
    have "fst (validate_batting_averages v w (Some d) pid)
          = Inr (d @ [(''calculated_avg'', map Num (fill_invalid F col))])"
      unfolding val0 using none ap r by (simp add: update_appended map_add_def)
    with F(1) show ?thesis unfolding fill_invalid_def by blast
  qed
  from h hs(2) ab(2) have len: "length col = length hits" by (simp add: col_def)
  have rows: "col ! i \<noteq> NaN
               \<and> (ax ! i = Fin 0 \<longrightarrow> col ! i = league_average)
               \<and> (\<forall>h a. to_float w (hits ! i) = Inr (Fin h) \<and> to_float w (at_bats ! i) = Inr (Fin a)
                        \<and> ax ! i \<noteq> Fin 0 \<and> a \<noteq> 0
                      \<longrightarrow> col ! i = fillna league_average (round_double w (h / a)))"
    if i: "i < length hits" for i
  proof -
    from i h hs(2) ab(2) have ci: "col ! i = fillna league_average (f_div w (hs ! i) (ab ! i))"
      by (simp add: col_def)
    from i h have n: "number_of (at_bats ! i) = Some (ax ! i)"
      using floats_of_nth[of at_bats ax i] by simp
    from i h ab(3) have abi: "to_float w (replace_zero (at_bats ! i)) = Inr (ab ! i)" by simp
    have 1: "col ! i \<noteq> NaN" unfolding ci by (rule derived_value_not_null)
    have 2: "col ! i = league_average" if "ax ! i = Fin 0"
    proof -
      from n that have "replace_zero (at_bats ! i) = Num NaN" by (simp add: replace_zero_zero)
      with abi have "ab ! i = NaN" by simp
      then show ?thesis unfolding ci by (simp add: f_div_null fillna_def isnull_def)
    qed
    have 3: "col ! i = fillna league_average (round_double w (h' / a))"
      if "to_float w (hits ! i) = Inr (Fin h')" "to_float w (at_bats ! i) = Inr (Fin a)"
        "ax ! i \<noteq> Fin 0" "a \<noteq> 0" for h' a
    proof -
      from n that(3) have "replace_zero (at_bats ! i) = at_bats ! i" by (rule replace_zero_other)
      with abi that(2) have "ab ! i = Fin a" by simp
      moreover from hs(3) i that(1) have "hs ! i = Fin h'" by simp
      ultimately show ?thesis unfolding ci using that(4) by simp
    qed
    from 1 2 3 show ?thesis by blast
  qed
  from calc val len rows show "\<exists>col. calculate_batting_average w d = Inr (d @ [(''calculated_avg'', map Num col)])
         \<and> (\<exists>F. \<not> invalid F
                \<and> fst (validate_batting_averages v w (Some d) pid)
                  = Inr (d @ [(''calculated_avg'', map Num (map (\<lambda>x. if invalid x then F else x) col))]))
         \<and> length col = length hits
         \<and> (\<forall>i < length hits.
               col ! i \<noteq> NaN
               \<and> (ax ! i = Fin 0 \<longrightarrow> col ! i = league_average)
               \<and> (\<forall>h a. to_float w (hits ! i) = Inr (Fin h) \<and> to_float w (at_bats ! i) = Inr (Fin a)
                        \<and> ax ! i \<noteq> Fin 0 \<and> a \<noteq> 0
                      \<longrightarrow> col ! i = fillna league_average (round_double w (h / a))))"
    by blast
qed

text \<open>The three pairs of the test suite and a row without at-bats, as int64 columns:
  the derived values are the doubles nearest to 85/300, 92/320 and 78/295, each within
  \<open>2 ^ -54\<close> of the quotient.\<close>

theorem derived_average_is_hits_over_at_bats_witness:
  "calculate_batting_average (at_time 0 no_data)
     [(''hits'', [IntC 85, IntC 92, IntC 78, IntC 3]),
      (''at_bats'', [IntC 300, IntC 320, IntC 295, IntC 0])]
   = Inr [(''hits'', [IntC 85, IntC 92, IntC 78, IntC 3]),
          (''at_bats'', [IntC 300, IntC 320, IntC 295, IntC 0]),
          (''calculated_avg'',
             [Num (Fin (2552039788843281 / 9007199254740992)),
              Num (Fin (2589569785738035 / 9007199254740992)),
              Num (Fin (4763129097422355 / 18014398509481984)),
              Num (Fin (244 / 1000))])]
   \<and> \<bar>2552039788843281 / 9007199254740992 - 85 / 300\<bar> \<le> (1 / 2 ^ 54 :: rat)
   \<and> \<bar>2589569785738035 / 9007199254740992 - 92 / 320\<bar> \<le> (1 / 2 ^ 54 :: rat)
   \<and> \<bar>4763129097422355 / 18014398509481984 - 78 / 295\<bar> \<le> (1 / 2 ^ 54 :: rat)"
proof -
  let ?w = "at_time 0 no_data"
  let ?hits = "[IntC 85, IntC 92, IntC 78, IntC 3]"
  let ?at_bats = "[IntC 300, IntC 320, IntC 295, IntC 0]"
  let ?d = "[(''hits'', ?hits), (''at_bats'', ?at_bats)]"
  let ?c = "[Fin (2552039788843281 / 9007199254740992), Fin (2589569785738035 / 9007199254740992),
             Fin (4763129097422355 / 18014398509481984), Fin (244 / 1000)]"
  have h: "filter is_avg_column (map fst ?d) = [] \<and> \<not> df_empty ?d
   \<and> map_of ?d ''hits'' = Some ?hits \<and> map_of ?d ''at_bats'' = Some ?at_bats
   \<and> length ?hits = length ?at_bats
   \<and> floats_of ?hits = Some [Fin 85, Fin 92, Fin 78, Fin 3]
   \<and> floats_of ?at_bats = Some [Fin 300, Fin 320, Fin 295, Fin 0]"
    by (simp add: is_avg_column_def str_lower_def char_lower_def df_empty_def nrows_def)
  from derived_average_is_hits_over_at_bats[of ?d ?hits ?at_bats _ _ ?w "init 1" None, THEN mp, OF h]
  obtain col where calc: "calculate_batting_average ?w ?d = Inr (?d @ [(''calculated_avg'', map Num col)])"
    by blast
  have ev: "calculate_batting_average ?w ?d = Inr (?d @ [(''calculated_avg'', map Num ?c)])"
    by code_simp
  have t: "\<bar>2552039788843281 / 9007199254740992 - 85 / 300\<bar> \<le> (1 / 2 ^ 54 :: rat)"
    "\<bar>2589569785738035 / 9007199254740992 - 92 / 320\<bar> \<le> (1 / 2 ^ 54 :: rat)"
    "\<bar>4763129097422355 / 18014398509481984 - 78 / 295\<bar> \<le> (1 / 2 ^ 54 :: rat)"
    by simp_all
  from calc ev t show ?thesis by simp
qed

section \<open>Player records\<close>

lemma py_eq_str: "py_eq x (PyStr s) \<longleftrightarrow> x = PyStr s"
  by (cases x) simp_all

lemma py_eq_league: "py_eq x (PyNum league_average) \<longleftrightarrow> x = PyNum league_average"
  by (cases x) (auto simp: f_eq_def league_average_def)

lemma percentage_high: "(8 / 10 :: rat) \<le> of_nat n / of_nat (5::nat) \<longleftrightarrow> 4 \<le> n"
proof -
  have "(8 / 10 :: rat) \<le> of_nat n / of_nat (5::nat) \<longleftrightarrow> (of_nat 4 :: rat) \<le> of_nat n"
    by (simp add: field_simps)
  then show ?thesis by (simp only: of_nat_le_iff)
qed

lemma percentage_medium: "(6 / 10 :: rat) \<le> of_nat n / of_nat (5::nat) \<longleftrightarrow> 3 \<le> n"
proof -
  have "(6 / 10 :: rat) \<le> of_nat n / of_nat (5::nat) \<longleftrightarrow> (of_nat 3 :: rat) \<le> of_nat n"
    by (simp add: field_simps)
  then show ?thesis by (simp only: of_nat_le_iff)
qed

lemma percentage_low: "(4 / 10 :: rat) \<le> of_nat n / of_nat (5::nat) \<longleftrightarrow> 2 \<le> n"
proof -
  have "(4 / 10 :: rat) \<le> of_nat n / of_nat (5::nat) \<longleftrightarrow> (of_nat 2 :: rat) \<le> of_nat n"
    by (simp add: field_simps)
  then show ?thesis by (simp only: of_nat_le_iff)
qed

lemma percentage_bucket:
  "(if (8 / 10 :: rat) \<le> of_nat n / of_nat (5::nat) then ''HIGH''
    else if (6 / 10 :: rat) \<le> of_nat n / of_nat (5::nat) then ''MEDIUM''
    else if (4 / 10 :: rat) \<le> of_nat n / of_nat (5::nat) then ''LOW''
    else ''INSUFFICIENT_DATA'') = quality_bucket n"
  unfolding percentage_high percentage_medium percentage_low quality_bucket_def
  by auto


lemma chain_count:
  "(let s1 = (if c1 then 1 else 0 :: nat);
        s2 = (if c2 then s1 + 1 else s1);
        s3 = (if c3 then s2 + 1 else s2);
        s4 = (if c4 then s3 + 1 else s3);
        s5 = (if c5 then s4 + 1 else s4)
    in g s5) = g (length (filter (\<lambda>b. b) [c1, c2, c3, c4, c5]))"
  by (cases c1; cases c2; cases c3; cases c4; cases c5; simp)

lemma assess_as_stated: "assess_data_quality d = stated_data_quality truthy d"
proof -
  have "assess_data_quality d
        = quality_bucket (length (filter (\<lambda>b. b)
            [truthy (get d ''name'') \<and> \<not> py_eq (get d ''name'') (PyStr ''Unknown Player''),
             truthy (get d ''player_id''),
             truthy (get d ''position'') \<and> \<not> py_eq (get d ''position'') (PyStr ''Unknown''),
             truthy (get d ''team'') \<and> \<not> py_eq (get d ''team'') (PyStr ''Free Agent''),
             truthy (get d ''batting_avg'')
               \<and> \<not> py_eq (get d ''batting_avg'') (PyNum league_average)]))"
    apply (simp only: assess_data_quality_def chain_count)
    apply (simp only: Let_def percentage_bucket)
    done
  then show ?thesis
    by (simp only: stated_data_quality_def quality_conditions_def py_eq_str py_eq_league)
qed


lemma apply_default_lookup:
  "map_of (apply_default m (f, dv)) k =
     (if k = f \<and> (map_of m f = None \<or> map_of m f = Some PyNone) then Some dv else map_of m k)"
  by (auto simp: apply_default_def update_conv' split: option.splits pyval.splits)

lemma fold_defaults:
  "distinct (map fst fs) \<Longrightarrow>
   map_of (foldl apply_default m fs) k =
     (case map_of fs k of
        None \<Rightarrow> map_of m k
      | Some dv \<Rightarrow> if map_of m k = None \<or> map_of m k = Some PyNone then Some dv else map_of m k)"
proof (induction fs arbitrary: m)
  case Nil
  then show ?case by simp
next
  case (Cons fd fs)
  obtain f dv where fd: "fd = (f, dv)" by (cases fd)
  from Cons.prems fd have d: "distinct (map fst fs)" and nf: "f \<notin> fst ` set fs" by auto
  from nf have none: "map_of fs f = None" by (simp add: map_of_eq_None_iff)
  show ?case
    using Cons.IH[OF d, of "apply_default m (f, dv)"] none
    by (auto simp: fd apply_default_lookup split: option.splits)
qed

lemma defaults_lookup:
  "map_of (foldl apply_default pd required_fields) k =
     (case map_of required_fields k of
        None \<Rightarrow> map_of pd k
      | Some dv \<Rightarrow> if map_of pd k = None \<or> map_of pd k = Some PyNone then Some dv else map_of pd k)"
  by (rule fold_defaults) (simp add: required_fields_def)

lemma get_update_other: "k \<noteq> k' \<Longrightarrow> get (AList.update k' x d) k = get d k"
  by (simp add: get_def update_conv')

lemma stated_ignores_quality:
  "stated_data_quality p (AList.update ''data_quality'' x d) = stated_data_quality p d"
  by (simp add: stated_data_quality_def quality_conditions_def get_update_other)

lemma default_record_lookup:
  "k \<noteq> ''data_quality'' \<Longrightarrow> map_of get_default_player_data k = map_of required_fields k"
  by (simp add: get_default_player_data_def required_fields_def)

lemma default_batting: "map_of required_fields ''batting_avg'' = Some (PyNum league_average)"
  by (simp add: required_fields_def)

lemma league_in_range: "\<not> (f_less league_average (Fin 0) \<or> f_less (Fin 1) league_average)"
  by (simp add: league_average_def)

lemma validate_player_data_Inr:
  "validate_player_data v pdo = Inr r \<Longrightarrow>
     r = get_default_player_data
     \<or> (\<exists>X. r = AList.update ''data_quality'' (PyStr (assess_data_quality X)) X)"
  by (auto simp: validate_player_data_def Let_def split: option.splits pyval.splits if_splits)

lemma validate_player_data_shape:
  assumes "\<forall>x. map_of pd ''batting_avg'' = Some x \<longrightarrow> x = PyNone \<or> (\<exists>a. x = PyNum a)"
  shows "\<exists>r. validate_player_data v (Some pd) = Inr r
      \<and> map_of r ''batting_avg''
        = Some (PyNum (case map_of pd ''batting_avg'' of
                         Some (PyNum a) \<Rightarrow>
                           if f_less a (Fin 0) \<or> f_less (Fin 1) a then league_average else a
                       | _ \<Rightarrow> league_average))
      \<and> (\<forall>k. k \<noteq> ''batting_avg'' \<and> k \<noteq> ''data_quality''
            \<longrightarrow> map_of r k = map_of (foldl apply_default pd required_fields) k)"
proof (cases "pd = []")
  case True
  then show ?thesis
    by (simp add: validate_player_data_def defaults_lookup default_record_lookup default_batting
             split: option.splits)
next
  case False
  let ?vd = "foldl apply_default pd required_fields"
  show ?thesis
  proof (cases "\<exists>a. map_of pd ''batting_avg'' = Some (PyNum a)")
    case True
    then obtain a where a: "map_of pd ''batting_avg'' = Some (PyNum a)" by blast
    then have vd: "map_of ?vd ''batting_avg'' = Some (PyNum a)"
      by (simp add: defaults_lookup default_batting)
    show ?thesis
      using False a vd
      by (simp add: validate_player_data_def Let_def update_conv')
  next
    case no: False
    with assms have "map_of pd ''batting_avg'' = None \<or> map_of pd ''batting_avg'' = Some PyNone"
      by (cases "map_of pd ''batting_avg''") auto
    then have vd: "map_of ?vd ''batting_avg'' = Some (PyNum league_average)"
      by (auto simp: defaults_lookup default_batting)
    have b: "(case map_of pd ''batting_avg'' of
                Some (PyNum a) \<Rightarrow> if f_less a (Fin 0) \<or> f_less (Fin 1) a then league_average else a
              | _ \<Rightarrow> league_average) = league_average"
      using no by (auto split: option.splits pyval.splits)
    show ?thesis
      unfolding b using False vd league_in_range
      by (simp add: validate_player_data_def Let_def update_conv')
  qed
qed


lemma default_quality:
  "map_of get_default_player_data ''data_quality''
   = Some (PyStr (stated_data_quality truthy get_default_player_data))"
  by code_simp

text \<open>
  Claim C10. \<open>validate_player_data\<close> keeps a numeric \<open>batting_avg\<close> unless it is
  negative or greater than 1, in which case it becomes the league average; in
  particular a \<open>batting_avg\<close> of exactly 0 is returned as 0. Table validation differs:
  the cascade replaces a 0 of a float64 column by a fallback value, which is never 0,
  and whenever it returns a column for an int64 column holding 0, that column holds
  the same fallback value.
\<close>

theorem zero_average_kept_in_player_record:
  "(map_of pd ''batting_avg'' = Some (PyNum a) \<longrightarrow>
      (\<exists>r. validate_player_data v (Some pd) = Inr r
           \<and> map_of r ''batting_avg''
             = Some (PyNum (if f_less a (Fin 0) \<or> f_less (Fin 1) a then league_average else a))))
   \<and> (map_of pd ''batting_avg'' = Some (PyNum (Fin 0)) \<longrightarrow>
        (\<exists>r. validate_player_data v (Some pd) = Inr r
             \<and> map_of r ''batting_avg'' = Some (PyNum (Fin 0))))
   \<and> (\<exists>F. F \<noteq> Fin 0
         \<and> fst (apply_batting_average_fallback v w [Num (Fin 0)] pid) = Inr [Num F]
         \<and> (\<forall>col' v'. apply_batting_average_fallback v w [IntC 0] pid = (Inr col', v') \<longrightarrow>
                floats_of col' = Some [F]))"
proof (intro conjI impI)
  assume a: "map_of pd ''batting_avg'' = Some (PyNum a)"
  then have "\<forall>x. map_of pd ''batting_avg'' = Some x \<longrightarrow> x = PyNone \<or> (\<exists>a. x = PyNum a)" by simp
  from validate_player_data_shape[OF this, of v]
  obtain r where r: "validate_player_data v (Some pd) = Inr r"
    "map_of r ''batting_avg''
        = Some (PyNum (case map_of pd ''batting_avg'' of
                         Some (PyNum a) \<Rightarrow>
                           if f_less a (Fin 0) \<or> f_less (Fin 1) a then league_average else a
                       | _ \<Rightarrow> league_average))"
    by blast
  from r(2) have "map_of r ''batting_avg''
             = Some (PyNum (if f_less a (Fin 0) \<or> f_less (Fin 1) a then league_average else a))"
    unfolding a by simp
  with r(1) show "\<exists>r. validate_player_data v (Some pd) = Inr r
           \<and> map_of r ''batting_avg''
             = Some (PyNum (if f_less a (Fin 0) \<or> f_less (Fin 1) a then league_average else a))"
    by blast
next
  assume z: "map_of pd ''batting_avg'' = Some (PyNum (Fin 0))"
  then have "\<forall>x. map_of pd ''batting_avg'' = Some x \<longrightarrow> x = PyNone \<or> (\<exists>a. x = PyNum a)" by simp
  from validate_player_data_shape[OF this, of v]
  obtain r where r: "validate_player_data v (Some pd) = Inr r"
    "map_of r ''batting_avg''
        = Some (PyNum (case map_of pd ''batting_avg'' of
                         Some (PyNum a) \<Rightarrow>
                           if f_less a (Fin 0) \<or> f_less (Fin 1) a then league_average else a
                       | _ \<Rightarrow> league_average))"
    by blast
  from r(2) have "map_of r ''batting_avg'' = Some (PyNum (Fin 0))"
    unfolding z by simp
  with r(1) show "\<exists>r. validate_player_data v (Some pd) = Inr r \<and> map_of r ''batting_avg'' = Some (PyNum (Fin 0))"
    by blast
next
  obtain F where F: "\<not> invalid F"
    "\<forall>s. fst (apply_batting_average_fallback v w (map Num s) pid) = Inr (map Num (fill_invalid F s))"
    "\<forall>col col' v'. apply_batting_average_fallback v w col pid = (Inr col', v') \<longrightarrow>
          (\<exists>xs. floats_of col = Some xs \<and> floats_of col' = Some (fill_invalid F xs)
              \<and> (col' = col
                 \<or> (\<exists>ys. col' = map Num ys)
                 \<or> (\<exists>ks ks'. col = map IntC ks \<and> col' = map IntC ks')))"
    using cascade_shape[of v w pid] by blast
  from F(2)[rule_format, of "[Fin 0]"]
  have 1: "fst (apply_batting_average_fallback v w [Num (Fin 0)] pid) = Inr [Num F]"
    by (simp add: fill_invalid_def invalid_iff)
  have 2: "floats_of col' = Some [F]"
    if "apply_batting_average_fallback v w [IntC 0] pid = (Inr col', v')" for col' v'
    using F(3)[rule_format, OF that] by (auto simp: fill_invalid_def invalid_iff)
  from F(1) have "F \<noteq> Fin 0" by (auto simp: invalid_iff)
  with 1 2 show "\<exists>F. F \<noteq> Fin 0
         \<and> fst (apply_batting_average_fallback v w [Num (Fin 0)] pid) = Inr [Num F]
         \<and> (\<forall>col' v'. apply_batting_average_fallback v w [IntC 0] pid = (Inr col', v') \<longrightarrow>
                floats_of col' = Some [F])"
    by blast
qed

text \<open>The same zero in a player record and in a column.\<close>

theorem zero_average_kept_in_player_record_witness:
  "validate_player_data (init 24) (Some [(''name'', PyStr ''Test Player''), (''batting_avg'', PyNum (Fin 0))])
   = Inr [(''name'', PyStr ''Test Player''), (''batting_avg'', PyNum (Fin 0)),
          (''player_id'', PyNone), (''position'', PyStr ''Unknown''), (''team'', PyStr ''Free Agent''),
          (''data_quality'', PyStr ''INSUFFICIENT_DATA'')]
   \<and> apply_batting_average_fallback (init 24) (at_time 0 no_data) [Num (Fin 0)] None
     = (Inr [Num (Fin (244 / 1000))], init 24)"
proof -
  let ?pd = "[(''name'', PyStr ''Test Player''), (''batting_avg'', PyNum (Fin 0))]"
  have z: "map_of ?pd ''batting_avg'' = Some (PyNum (Fin 0))" by simp
  from zero_average_kept_in_player_record[of ?pd "Fin 0" "init 24", THEN conjunct2, THEN conjunct1, THEN mp, OF z]
  obtain r where r: "validate_player_data (init 24) (Some ?pd) = Inr r"
    "map_of r ''batting_avg'' = Some (PyNum (Fin 0))" by blast
  have ev: "validate_player_data (init 24) (Some ?pd)
   = Inr [(''name'', PyStr ''Test Player''), (''batting_avg'', PyNum (Fin 0)),
          (''player_id'', PyNone), (''position'', PyStr ''Unknown''), (''team'', PyStr ''Free Agent''),
          (''data_quality'', PyStr ''INSUFFICIENT_DATA'')]"
    by code_simp
  have tab: "apply_batting_average_fallback (init 24) (at_time 0 no_data) [Num (Fin 0)] None
     = (Inr [Num (Fin (244 / 1000))], init 24)"
    by code_simp
  from r ev tab show ?thesis by simp
qed

text \<open>
  Claim C3, amended. Whenever \<open>validate_player_data\<close> returns a record, its
  \<open>data_quality\<close> is the bucket (4-5 HIGH, 3 MEDIUM, 2 LOW, 0-1 INSUFFICIENT\_DATA) of the
  number of true conditions among the five, where "present" is Python's truth value
  of the returned field: not \<open>None\<close>, not the empty string and not zero. A
  \<open>batting_avg\<close> of exactly 0 therefore does not count, although it is present and was
  not defaulted: see \<open>zero_average_not_counted\<close>.
\<close>

theorem data_quality_counts_truthy_fields:
  "validate_player_data v pdo = Inr r \<longrightarrow>
     map_of r ''data_quality'' = Some (PyStr (stated_data_quality truthy r))"
proof
  assume "validate_player_data v pdo = Inr r"
  then consider "r = get_default_player_data"
    | X where "r = AList.update ''data_quality'' (PyStr (assess_data_quality X)) X"
    using validate_player_data_Inr by blast
  then show "map_of r ''data_quality'' = Some (PyStr (stated_data_quality truthy r))"
  proof cases
    case 1
    then show ?thesis by (simp only: default_quality)
  next
    case 2
    then show ?thesis
      by (simp add: update_conv' stated_ignores_quality assess_as_stated)
  qed
qed

text \<open>The high-quality record of the test suite.\<close>

theorem data_quality_counts_truthy_fields_witness:
  "validate_player_data (init 24)
     (Some [(''name'', PyStr ''Mike Trout''), (''player_id'', PyStr ''545361''),
            (''position'', PyStr ''CF''), (''team'', PyStr ''Angels''),
            (''batting_avg'', PyNum (Fin (57 / 200)))])
   = Inr [(''name'', PyStr ''Mike Trout''), (''player_id'', PyStr ''545361''),
          (''position'', PyStr ''CF''), (''team'', PyStr ''Angels''),
          (''batting_avg'', PyNum (Fin (57 / 200))), (''data_quality'', PyStr ''HIGH'')]
   \<and> stated_data_quality truthy
        [(''name'', PyStr ''Mike Trout''), (''player_id'', PyStr ''545361''),
          (''position'', PyStr ''CF''), (''team'', PyStr ''Angels''),
          (''batting_avg'', PyNum (Fin (57 / 200))), (''data_quality'', PyStr ''HIGH'')] = ''HIGH''"
proof -
  let ?pd = "[(''name'', PyStr ''Mike Trout''), (''player_id'', PyStr ''545361''),
            (''position'', PyStr ''CF''), (''team'', PyStr ''Angels''),
            (''batting_avg'', PyNum (Fin (57 / 200)))]"
  let ?r = "[(''name'', PyStr ''Mike Trout''), (''player_id'', PyStr ''545361''),
          (''position'', PyStr ''CF''), (''team'', PyStr ''Angels''),
          (''batting_avg'', PyNum (Fin (57 / 200))), (''data_quality'', PyStr ''HIGH'')]"
  have ev: "validate_player_data (init 24) (Some ?pd) = Inr ?r"
    by code_simp
  from data_quality_counts_truthy_fields[of "init 24" "Some ?pd" ?r, THEN mp, OF ev]
  have q: "map_of ?r ''data_quality'' = Some (PyStr (stated_data_quality truthy ?r))" .
  have "map_of ?r ''data_quality'' = Some (PyStr ''HIGH'')" by simp
  with q have "stated_data_quality truthy ?r = ''HIGH''" by (simp only: option.inject pyval.inject)
  with ev show ?thesis by blast
qed

text \<open>
  Claim C3 as stated fails for a record with name, identifier, position and a
  \<open>batting_avg\<close> of 0.0: four of the five conditions hold when "present" means that the
  field has a value, which is the bucket HIGH, but the code attaches MEDIUM.
\<close>

theorem zero_average_not_counted:
  "validate_player_data (init 24)
     (Some [(''name'', PyStr ''A''), (''player_id'', PyStr ''p1''), (''position'', PyStr ''CF''),
            (''batting_avg'', PyNum (Fin 0))])
   = Inr [(''name'', PyStr ''A''), (''player_id'', PyStr ''p1''), (''position'', PyStr ''CF''),
          (''batting_avg'', PyNum (Fin 0)), (''team'', PyStr ''Free Agent''),
          (''data_quality'', PyStr ''MEDIUM'')]
   \<and> stated_data_quality is_present
        [(''name'', PyStr ''A''), (''player_id'', PyStr ''p1''), (''position'', PyStr ''CF''),
          (''batting_avg'', PyNum (Fin 0)), (''team'', PyStr ''Free Agent''),
          (''data_quality'', PyStr ''MEDIUM'')] = ''HIGH''
   \<and> stated_data_quality is_present
        [(''name'', PyStr ''A''), (''player_id'', PyStr ''p1''), (''position'', PyStr ''CF''),
            (''batting_avg'', PyNum (Fin 0))] = ''HIGH''"
  by code_simp

end
